theory Spec2Isabelle
  imports Main "HOL-Library.Word" "HOL-Library.Log_Nat"
begin

section \<open>Common types\<close>

text \<open>
  Cookies are the \<^verbatim>\<open>const void*\<close> handles of the memcached core; only their identity and
  the order \<^verbatim>\<open>std::map\<close> puts on them matter, so they are natural numbers (addresses).
  Vbucket ids are \<^verbatim>\<open>uint16_t\<close>, opaques and flags \<^verbatim>\<open>uint32_t\<close>, sequence numbers
  and CAS values \<^verbatim>\<open>uint64_t\<close>.
\<close>

type_synonym cookie = nat
type_synonym vbid = "16 word"
type_synonym u8 = "8 word"
type_synonym u16 = "16 word"
type_synonym u32 = "32 word"
type_synonym u64 = "64 word"

text \<open>
  The engine error codes the sources name. \<open>ENGINE_OTHER\<close> stands for every other code
  of the memcached enumeration, which only functions defined in other files return.
\<close>

datatype ENGINE_ERROR_CODE =
    ENGINE_SUCCESS
  | ENGINE_KEY_EEXISTS
  | ENGINE_ENOTSUP
  | ENGINE_DISCONNECT
  | ENGINE_OTHER nat

section \<open>The UPR consumer entry points of the engine (upr-consumer.cc)\<close>

text \<open>
  \<^verbatim>\<open>ItemMetaData(cas, revSeqno, flags, exptime)\<close>, with the fields in the order of the
  constructor call in \<^verbatim>\<open>uprDeletion\<close>; \<open>exptime\<close> and the \<open>when\<close> of \<^verbatim>\<open>flush\<close> are
  \<^verbatim>\<open>time_t\<close> values, of which only 0 occurs here.
\<close>

record ItemMetaData =
  cas :: u64
  revSeqno :: u64
  flags :: u32
  exptime :: u64

text \<open>
  The members of \<^verbatim>\<open>EventuallyPersistentEngine\<close> that upr-consumer.cc calls and that are
  defined elsewhere are parameters of the model: \<open>'s\<close> is the state of the engine (its
  vbuckets included), \<open>'c\<close> the consumer object a cookie carries. A null pointer from
  \<^verbatim>\<open>getEngineSpecific\<close> is \<open>None\<close>. \<^verbatim>\<open>Item::nextCas()\<close> advances a global counter, so it
  returns the new state too.
\<close>

record ('s, 'c) engine_members =
  getEngineSpecific :: "cookie \<Rightarrow> 's \<Rightarrow> 'c option"
  ConnHandlerMutate :: "'c \<Rightarrow> string \<Rightarrow> cookie \<Rightarrow> u32 \<Rightarrow> u32 \<Rightarrow> u64 \<Rightarrow> u64 \<Rightarrow> u16
                          \<Rightarrow> bool \<Rightarrow> string \<Rightarrow> u32 \<Rightarrow> 's \<Rightarrow> ENGINE_ERROR_CODE \<times> 's"
  ConnHandlerDelete :: "'c \<Rightarrow> string \<Rightarrow> cookie \<Rightarrow> u16 \<Rightarrow> bool \<Rightarrow> ItemMetaData
                          \<Rightarrow> 's \<Rightarrow> ENGINE_ERROR_CODE \<times> 's"
  flush :: "cookie \<Rightarrow> u64 \<Rightarrow> 's \<Rightarrow> ENGINE_ERROR_CODE \<times> 's"
  nextCas :: "'s \<Rightarrow> u64 \<times> 's"
  DEFAULT_REV_SEQ_NUM :: u64

text \<open>
  \<^verbatim>\<open>std::string k(static_cast<const char*>(key), nkey)\<close>: the key argument is the byte
  buffer behind the pointer, of which the first \<open>nkey\<close> bytes are the key.
\<close>

definition uprMutation ::
  "('s, 'c) engine_members \<Rightarrow> cookie \<Rightarrow> u32 \<Rightarrow> string \<Rightarrow> u16 \<Rightarrow> string \<Rightarrow> u32 \<Rightarrow> u64
     \<Rightarrow> u16 \<Rightarrow> u32 \<Rightarrow> u8 \<Rightarrow> u64 \<Rightarrow> u64 \<Rightarrow> u32 \<Rightarrow> u32 \<Rightarrow> 's \<Rightarrow> ENGINE_ERROR_CODE \<times> 's"
where
  "uprMutation E cookie opaque key nkey val nvalue cas_arg vbucket flags_arg datatype
       bySeqno revSeqno_arg expiration lockTime s =
     (case getEngineSpecific E cookie s of
        None \<Rightarrow> (ENGINE_DISCONNECT, s)
      | Some consumer \<Rightarrow>
          (let k = take (unat nkey) key
           in ConnHandlerMutate E consumer k cookie flags_arg expiration cas_arg revSeqno_arg
                vbucket True val nvalue s))"

definition uprDeletion ::
  "('s, 'c) engine_members \<Rightarrow> cookie \<Rightarrow> u32 \<Rightarrow> string \<Rightarrow> u16 \<Rightarrow> u64 \<Rightarrow> u16 \<Rightarrow> u64 \<Rightarrow> u64
     \<Rightarrow> 's \<Rightarrow> ENGINE_ERROR_CODE \<times> 's"
where
  "uprDeletion E cookie opaque key nkey cas_arg vbucket bySeqno revSeqno_arg s =
     (case getEngineSpecific E cookie s of
        None \<Rightarrow> (ENGINE_DISCONNECT, s)
      | Some consumer \<Rightarrow>
          (let k = take (unat nkey) key;
               itemMeta = \<lparr>cas = cas_arg, revSeqno = DEFAULT_REV_SEQ_NUM E, flags = 0, exptime = 0\<rparr>;
               (itemMeta1, s1) =
                  (if cas itemMeta = 0
                   then (let (c, s') = nextCas E s in (itemMeta\<lparr>cas := c\<rparr>, s'))
                   else (itemMeta, s));
               itemMeta2 = itemMeta1\<lparr>revSeqno :=
                  (if revSeqno_arg \<noteq> 0 then revSeqno_arg else DEFAULT_REV_SEQ_NUM E)\<rparr>
           in ConnHandlerDelete E consumer k cookie vbucket True itemMeta2 s1))"

definition uprExpiration ::
  "('s, 'c) engine_members \<Rightarrow> cookie \<Rightarrow> u32 \<Rightarrow> string \<Rightarrow> u16 \<Rightarrow> u64 \<Rightarrow> u16 \<Rightarrow> u64 \<Rightarrow> u64
     \<Rightarrow> 's \<Rightarrow> ENGINE_ERROR_CODE \<times> 's"
where
  "uprExpiration E cookie opaque key nkey cas_arg vbucket bySeqno revSeqno_arg s =
     uprDeletion E cookie opaque key nkey cas_arg vbucket bySeqno revSeqno_arg s"

text \<open>
  \<^verbatim>\<open>LOG\<close> is a macro defined elsewhere; every call passes a level, a \<^verbatim>\<open>printf\<close> format and
  the values for the conversions of the format. A call that passes a value for each
  conversion only writes to the log sink, and such calls are left out of the model. The
  call in \<^verbatim>\<open>uprFlush\<close> passes the format \<^verbatim>\<open>"%s Received flush.\n"\<close> and no value: the
  \<^verbatim>\<open>%s\<close> conversion reads an argument that was not passed, which the language leaves
  undefined. What this call does is therefore a parameter of \<^verbatim>\<open>uprFlush\<close>:
  \<open>LOG format args ctx s\<close> is the engine state the call leaves, or \<open>None\<close> when it does
  not return, where \<open>args\<close> are the values passed and \<open>ctx\<close> holds the arguments of the
  calling function, from whose registers or stack a missing value is read.

  \<open>conversions format\<close> counts the conversion specifications of a format (\<^verbatim>\<open>%%\<close> is a
  literal percent sign).
\<close>

fun conversions :: "string \<Rightarrow> nat" where
  "conversions (c # d # cs) =
     (if c = CHR ''%''
      then (if d = CHR ''%'' then conversions cs else Suc (conversions cs))
      else conversions (d # cs))"
| "conversions cs = 0"

definition received_flush_format :: string where
  "received_flush_format = ''%s Received flush.'' @ [CHR 0x0A]"

definition uprFlush ::
  "('s, 'c) engine_members \<Rightarrow> (string \<Rightarrow> string list \<Rightarrow> cookie \<times> u32 \<times> u16 \<Rightarrow> 's \<Rightarrow> 's option)
     \<Rightarrow> cookie \<Rightarrow> u32 \<Rightarrow> u16 \<Rightarrow> 's \<Rightarrow> (ENGINE_ERROR_CODE \<times> 's) option"
where
  "uprFlush E LOG cookie opaque vbucket s =
     (case LOG received_flush_format [] (cookie, opaque, vbucket) s of
        None \<Rightarrow> None
      | Some s1 \<Rightarrow> Some (flush E cookie 0 s1))"

section \<open>The checkpoint processor task (dcp/stream.h)\<close>

datatype stream_state_t =
    STREAM_PENDING
  | STREAM_BACKFILLING
  | STREAM_IN_MEMORY
  | STREAM_TAKEOVER_SEND
  | STREAM_TAKEOVER_WAIT
  | STREAM_READING
  | STREAM_DEAD

datatype stream_type_t = STREAM_ACTIVE | STREAM_NOTIFIER | STREAM_PASSIVE

text \<open>
  The data members of \<^verbatim>\<open>class Stream\<close>, without the mutex and the ready queue (the
  response objects it holds are declared elsewhere); a member \<^verbatim>\<open>x_\<close> of the class is the
  field \<open>x\<close> or \<open>stream_x\<close> of the record. \<^verbatim>\<open>vb_\<close> is set by the constructor
  and has no mutator, so the vbucket of a stream in the work queue is the one it was
  pushed with, and the queue of \<^verbatim>\<open>stream_t\<close> pointers is a list of these records.
\<close>

record Stream =
  stream_name :: string
  stream_flags :: u32
  stream_opaque :: u32
  stream_vb :: u16
  start_seqno :: u64
  end_seqno :: u64
  vb_uuid :: u64
  snap_start_seqno :: u64
  snap_end_seqno :: u64
  stream_state :: stream_state_t
  stream_type :: stream_type_t
  itemsReady :: bool
  readyQueueMemory :: u64

definition getVBucket :: "Stream \<Rightarrow> u16" where
  "getVBucket st = stream_vb st"

text \<open>
  \<^verbatim>\<open>std::queue<stream_t> queue\<close> is a list with its front at the head;
  \<^verbatim>\<open>std::set<uint16_t> queuedVbuckets\<close> is a set. Every member function below takes
  \<^verbatim>\<open>workQueueLock\<close> for its whole body, so each is one step on the task's state.
\<close>

record ActiveStreamCheckpointProcessorTask =
  queue :: "Stream list"
  queuedVbuckets :: "u16 set"
  notified :: bool
  iterationsBeforeYield :: u64

text \<open>The constructor: \<^verbatim>\<open>notified(false)\<close>, the yield limit from the configuration, empty containers.\<close>

definition newCheckpointProcessorTask :: "u64 \<Rightarrow> ActiveStreamCheckpointProcessorTask" where
  "newCheckpointProcessorTask yieldLimit =
     \<lparr>queue = [], queuedVbuckets = {}, notified = False, iterationsBeforeYield = yieldLimit\<rparr>"

text \<open>\<^verbatim>\<open>queuePop\<close> returns a null \<^verbatim>\<open>stream_t\<close> (\<open>None\<close>) when the queue is empty.\<close>

definition queuePop ::
  "ActiveStreamCheckpointProcessorTask \<Rightarrow> Stream option \<times> ActiveStreamCheckpointProcessorTask"
where
  "queuePop t =
     (case queue t of
        [] \<Rightarrow> (None, t)
      | rval # rest \<Rightarrow>
          (Some rval, t\<lparr>queue := rest, queuedVbuckets := queuedVbuckets t - {getVBucket rval}\<rparr>))"

definition queueEmpty :: "ActiveStreamCheckpointProcessorTask \<Rightarrow> bool" where
  "queueEmpty t = (queue t = [])"

definition pushUnique ::
  "Stream \<Rightarrow> ActiveStreamCheckpointProcessorTask \<Rightarrow> ActiveStreamCheckpointProcessorTask"
where
  "pushUnique stream t =
     (if getVBucket stream \<notin> queuedVbuckets t
      then t\<lparr>queue := queue t @ [stream],
             queuedVbuckets := insert (getVBucket stream) (queuedVbuckets t)\<rparr>
      else t)"

text \<open>
  The invariant of the work queue: no vbucket id occurs twice among the queued streams,
  and the ids that occur are exactly the members of \<open>queuedVbuckets\<close>.
\<close>

definition queue_unique :: "ActiveStreamCheckpointProcessorTask \<Rightarrow> bool" where
  "queue_unique t \<longleftrightarrow>
     distinct (map getVBucket (queue t)) \<and> set (map getVBucket (queue t)) = queuedVbuckets t"

section \<open>Double-precision arithmetic\<close>

text \<open>
  \<^verbatim>\<open>updateMaxActiveSnoozingBackfills\<close> computes in \<^verbatim>\<open>double\<close>. A finite double is modelled
  by the rational number it denotes, and every operation returns the exact result
  rounded to the nearest double, ties to the even significand (IEEE 754 binary64 in its
  default rounding mode, 53 significant bits). Exponent overflow and subnormal numbers
  are not modelled: the values that occur below are 0 or lie between \<open>1 / 2 ^ 27\<close> and
  \<open>2 ^ 65\<close>.

  \<open>binade x\<close> is the exponent \<open>e\<close> of a positive \<open>x\<close>, the integer with
  \<open>2 powi e \<le> x < 2 powi (e + 1)\<close>, and \<open>ulp x\<close> is the distance between neighbouring
  doubles there.
\<close>

type_synonym double = rat

definition binade :: "rat \<Rightarrow> int" where
  "binade x = (if 1 \<le> x then bitlen \<lfloor>x\<rfloor> - 1 else - bitlen (\<lceil>1 / x\<rceil> - 1))"

definition round_ties_even :: "rat \<Rightarrow> int" where
  "round_ties_even x =
     (let f = \<lfloor>x\<rfloor>; d = x - of_int f
      in if d < 1 / 2 then f else if 1 / 2 < d then f + 1 else if even f then f else f + 1)"

definition ulp :: "rat \<Rightarrow> rat" where
  "ulp x = 2 powi (binade x - 52)"

definition round_double :: "rat \<Rightarrow> double" where
  "round_double x = sgn x * (of_int (round_ties_even (\<bar>x\<bar> / ulp \<bar>x\<bar>)) * ulp \<bar>x\<bar>)"

text \<open>
  The conversion of an unsigned integer to \<^verbatim>\<open>double\<close>, multiplication, division, and the
  conversion of a non-negative \<^verbatim>\<open>double\<close> to \<^verbatim>\<open>size_t\<close> (64 bits), which truncates.
\<close>

definition double_of_nat :: "nat \<Rightarrow> double" where
  "double_of_nat n = round_double (of_nat n)"

definition double_mult :: "double \<Rightarrow> double \<Rightarrow> double" where
  "double_mult a b = round_double (a * b)"

definition double_divide :: "double \<Rightarrow> double \<Rightarrow> double" where
  "double_divide a b = round_double (a / b)"

definition size_t_of_double :: "double \<Rightarrow> u64" where
  "size_t_of_double d = of_nat (nat \<lfloor>d\<rfloor>)"

section \<open>The DCP connection map (class DcpConnMap)\<close>

subsection \<open>Connections\<close>

text \<open>
  A \<^verbatim>\<open>connection_t\<close> is a reference-counted pointer to a \<^verbatim>\<open>ConnHandler\<close>; the same
  object is reachable from \<open>all\<close>, from the cookie map, from \<open>deadConnections\<close> and from
  \<open>vbConns\<close>, and \<^verbatim>\<open>setDisconnect\<close> on it is seen through each of them. The objects
  therefore live in a store, \<open>conns\<close>, from addresses to object states, and the
  containers hold addresses. An address without an object stands for a null pointer.

  The connection classes are declared in other files of the engine. The record has one
  field for each accessor the connection map calls: \<open>handler_class\<close> is the dynamic class
  (the connection map creates \<^verbatim>\<open>DcpProducer\<close> and \<^verbatim>\<open>DcpConsumer\<close> objects only and
  tells them apart by \<^verbatim>\<open>dynamic_cast\<close>), \<open>handler_name\<close> is \<^verbatim>\<open>getName()\<close>, \<open>handler_cookie\<close> is
  \<^verbatim>\<open>getCookie()\<close>, \<open>disconnect\<close> is \<^verbatim>\<open>doDisconnect()\<close>, \<open>reserved\<close> is \<^verbatim>\<open>isReserved()\<close>,
  \<open>lastWalkTime\<close> is \<^verbatim>\<open>getLastWalkTime()\<close> (a \<^verbatim>\<open>rel_time_t\<close>, 32 bits unsigned),
  \<open>notifiable\<close> is the result of \<^verbatim>\<open>dynamic_cast<Notifiable*>\<close> (\<open>None\<close> when the cast
  fails) with \<^verbatim>\<open>isPaused()\<close> and \<^verbatim>\<open>sentNotify()\<close>, \<open>streamPresent\<close> is
  \<^verbatim>\<open>DcpConsumer::isStreamPresent\<close> and \<open>vbVector\<close> is \<^verbatim>\<open>DcpProducer::getVBVector()\<close>.
\<close>

type_synonym conn_ref = nat
type_synonym rel_time_t = u32

datatype conn_class = DcpProducer | DcpConsumer

record Notifiable =
  paused :: bool
  notifySent :: bool

record ConnHandler =
  handler_class :: conn_class
  handler_name :: string
  handler_cookie :: cookie
  disconnect :: bool
  reserved :: bool
  lastWalkTime :: rel_time_t
  notifiable :: "Notifiable option"
  streamPresent :: "vbid \<Rightarrow> bool"
  vbVector :: "vbid list"

definition setDisconnect :: "bool \<Rightarrow> ConnHandler \<Rightarrow> ConnHandler" where
  "setDisconnect val c = c\<lparr>disconnect := val\<rparr>"

definition setNotifySent :: "bool \<Rightarrow> ConnHandler \<Rightarrow> ConnHandler" where
  "setNotifySent val c = c\<lparr>notifiable := map_option (\<lambda>n. n\<lparr>notifySent := val\<rparr>) (notifiable c)\<rparr>"

subsection \<open>The state of the connection map\<close>

text \<open>
  \<open>all\<close> is the \<^verbatim>\<open>std::list\<close> of connections in insertion order. \<open>cookie_map\<close> is the
  \<^verbatim>\<open>std::map\<close> member \<^verbatim>\<open>map_\<close> as the list of its entries in key order, which is the
  order its iterators visit. \<open>next_ref\<close> is the address the next \<^verbatim>\<open>new\<close> returns. The two
  backfill counters are \<^verbatim>\<open>uint16_t\<close>, like \<open>numBackfillsThreshold\<close>, and \<^verbatim>\<open>size_t\<close> is 64 bits.
\<close>

record DcpConnMap =
  conns :: "conn_ref \<rightharpoonup> ConnHandler"
  next_ref :: conn_ref
  all :: "conn_ref list"
  cookie_map :: "(cookie \<times> conn_ref) list"
  deadConnections :: "conn_ref list"
  vbConns :: "vbid \<Rightarrow> conn_ref list"
  aggrDcpConsumerBufferSize :: u64
  minCompressionRatioForProducer :: rat
  numActiveSnoozingBackfills :: u16
  maxActiveSnoozingBackfills :: u16

definition dbFileMem :: u32 where
  "dbFileMem = 10 * 1024"

definition numBackfillsThreshold :: u16 where
  "numBackfillsThreshold = 4096"

definition numBackfillsMemThreshold :: u8 where
  "numBackfillsMemThreshold = 1"

subsection \<open>Backfill admission\<close>

text \<open>Each of the three functions holds \<^verbatim>\<open>numBackfillsLock\<close> around its reads and writes.\<close>

definition canAddBackfillToActiveQ :: "DcpConnMap \<Rightarrow> bool \<times> DcpConnMap" where
  "canAddBackfillToActiveQ s =
     (if numActiveSnoozingBackfills s < maxActiveSnoozingBackfills s
      then (True, s\<lparr>numActiveSnoozingBackfills := numActiveSnoozingBackfills s + 1\<rparr>)
      else (False, s))"

definition decrNumActiveSnoozingBackfills :: "DcpConnMap \<Rightarrow> DcpConnMap" where
  "decrNumActiveSnoozingBackfills s =
     (if numActiveSnoozingBackfills s > 0
      then s\<lparr>numActiveSnoozingBackfills := numActiveSnoozingBackfills s - 1\<rparr>
      else s)"

text \<open>
  \<^verbatim>\<open>static_cast<double>(numBackfillsMemThreshold)/100\<close> converts both operands to double
  and divides; \<^verbatim>\<open>maxDataSize * numBackfillsMemThresholdPercent / dbFileMem\<close> converts
  the \<^verbatim>\<open>size_t\<close> and the \<^verbatim>\<open>uint32_t\<close> to double, multiplies, then divides; the
  initialisation of \<^verbatim>\<open>size_t max\<close> truncates. \<^verbatim>\<open>std::min\<close> and \<^verbatim>\<open>std::max\<close> are taken
  in \<^verbatim>\<open>size_t\<close>, and the assignment narrows to 16 bits.
\<close>

definition updateMaxActiveSnoozingBackfills :: "u64 \<Rightarrow> DcpConnMap \<Rightarrow> DcpConnMap" where
  "updateMaxActiveSnoozingBackfills maxDataSize s =
     (let numBackfillsMemThresholdPercent =
            double_divide (double_of_nat (unat numBackfillsMemThreshold)) (double_of_nat 100);
          mx = size_t_of_double
                 (double_divide
                    (double_mult (double_of_nat (unat maxDataSize)) numBackfillsMemThresholdPercent)
                    (double_of_nat (unat dbFileMem)))
      in s\<lparr>maxActiveSnoozingBackfills := ucast (max 1 (min mx (ucast numBackfillsThreshold)))\<rparr>)"

text \<open>
  The constructor: the base class leaves the containers empty, the counter starts at 0
  and the bound is computed from the engine's maximum data size; the compression ratio
  comes from the configuration.
\<close>

definition newDcpConnMap :: "u64 \<Rightarrow> rat \<Rightarrow> DcpConnMap" where
  "newDcpConnMap maxDataSize dcpMinCompressionRatio =
     (updateMaxActiveSnoozingBackfills maxDataSize
        \<lparr>conns = Map.empty, next_ref = 0, all = [], cookie_map = [], deadConnections = [],
         vbConns = (\<lambda>vb. []), aggrDcpConsumerBufferSize = 0,
         minCompressionRatioForProducer = 0,
         numActiveSnoozingBackfills = 0, maxActiveSnoozingBackfills = 0\<rparr>)
       \<lparr>minCompressionRatioForProducer := dcpMinCompressionRatio\<rparr>"

text \<open>
  Sequences of calls of the three admission functions, for statements about every
  interleaving of them.
\<close>

datatype backfill_op =
    CanAddBackfillToActiveQ
  | DecrNumActiveSnoozingBackfills
  | UpdateMaxActiveSnoozingBackfills u64

fun apply_backfill_op :: "backfill_op \<Rightarrow> DcpConnMap \<Rightarrow> DcpConnMap" where
  "apply_backfill_op CanAddBackfillToActiveQ s = snd (canAddBackfillToActiveQ s)"
| "apply_backfill_op DecrNumActiveSnoozingBackfills s = decrNumActiveSnoozingBackfills s"
| "apply_backfill_op (UpdateMaxActiveSnoozingBackfills maxDataSize) s =
     updateMaxActiveSnoozingBackfills maxDataSize s"

fun run_backfill_ops :: "backfill_op list \<Rightarrow> DcpConnMap \<Rightarrow> DcpConnMap" where
  "run_backfill_ops [] s = s"
| "run_backfill_ops (x # xs) s = run_backfill_ops xs (apply_backfill_op x s)"

definition backfills_within_max :: "DcpConnMap \<Rightarrow> bool" where
  "backfills_within_max s \<longleftrightarrow> numActiveSnoozingBackfills s \<le> maxActiveSnoozingBackfills s"

text \<open>
  \<open>max_respects_count xs s\<close>: along the calls \<open>xs\<close> from \<open>s\<close>, every call of
  \<^verbatim>\<open>updateMaxActiveSnoozingBackfills\<close> is given a data size whose bound is at least the
  number of backfills active at that moment.
\<close>

fun max_respects_count :: "backfill_op list \<Rightarrow> DcpConnMap \<Rightarrow> bool" where
  "max_respects_count [] s = True"
| "max_respects_count (x # xs) s =
     ((case x of
         UpdateMaxActiveSnoozingBackfills maxDataSize \<Rightarrow>
           unat (numActiveSnoozingBackfills s) \<le> max 1 (min (unat maxDataSize div 1024000) 4096)
       | _ \<Rightarrow> True)
      \<and> max_respects_count xs (apply_backfill_op x s))"

text \<open>
  For the proofs: the quotient \<^verbatim>\<open>maxDataSize * numBackfillsMemThresholdPercent / dbFileMem\<close>
  before truncation, for a data size \<open>m\<close>, with the percentage evaluated to the double
  nearest to 1/100 and \<open>dbFileMem\<close> to 10240.
\<close>

definition quotient_double :: "nat \<Rightarrow> double" where
  "quotient_double m =
     double_divide (double_mult (double_of_nat m) (5764607523034235 / 2 ^ 59)) (double_of_nat 10240)"

subsection \<open>The registry\<close>

text \<open>\<^verbatim>\<open>(*iter)->getName()\<close> and \<^verbatim>\<open>(*iter)->getCookie()\<close> through the store.\<close>

definition getName :: "(conn_ref \<rightharpoonup> ConnHandler) \<Rightarrow> conn_ref \<Rightarrow> string option" where
  "getName h r = map_option handler_name (h r)"

definition getCookie :: "(conn_ref \<rightharpoonup> ConnHandler) \<Rightarrow> conn_ref \<Rightarrow> cookie option" where
  "getCookie h r = map_option handler_cookie (h r)"

text \<open>\<^verbatim>\<open>map_[cookie] = dc\<close> on the entries in key order.\<close>

fun map_assign :: "cookie \<Rightarrow> conn_ref \<Rightarrow> (cookie \<times> conn_ref) list \<Rightarrow> (cookie \<times> conn_ref) list" where
  "map_assign k v [] = [(k, v)]"
| "map_assign k v ((k', v') # m) =
     (if k < k' then (k, v) # (k', v') # m
      else if k = k' then (k, v) # m
      else (k', v') # map_assign k v m)"

text \<open>
  The loop at the head of \<^verbatim>\<open>newConsumer\<close> and \<^verbatim>\<open>newProducer\<close>: the first connection of
  \<open>all\<close> with the name \<open>conn_name\<close> is marked for disconnect and erased from the list, and
  the loop stops. It returns the store and the list. The list never holds a null pointer
  (only new objects are pushed); an address without an object has no name here.
\<close>

fun disconnectNamed ::
  "string \<Rightarrow> conn_ref list \<Rightarrow> (conn_ref \<rightharpoonup> ConnHandler)
     \<Rightarrow> (conn_ref \<rightharpoonup> ConnHandler) \<times> conn_ref list"
where
  "disconnectNamed conn_name [] h = (h, [])"
| "disconnectNamed conn_name (iter # rest) h =
     (if getName h iter = Some conn_name
      then (h(iter := map_option (setDisconnect True) (h iter)), rest)
      else (let (h', rest') = disconnectNamed conn_name rest h in (h', iter # rest')))"

text \<open>
  The constructors of \<^verbatim>\<open>DcpConsumer\<close> and \<^verbatim>\<open>DcpProducer\<close> are defined in other files and
  are parameters: \<open>DcpConsumer_new cookie conn_name\<close> and
  \<open>DcpProducer_new cookie conn_name notifyOnly\<close> are the states of the objects they
  build. Both functions return the new connection.
\<close>

definition newConsumer ::
  "(cookie \<Rightarrow> string \<Rightarrow> ConnHandler) \<Rightarrow> cookie \<Rightarrow> string \<Rightarrow> DcpConnMap \<Rightarrow> conn_ref \<times> DcpConnMap"
where
  "newConsumer DcpConsumer_new cookie name s =
     (let conn_name = ''eq_dcpq:'' @ name;
          (h, all') = disconnectNamed conn_name (all s) (conns s);
          dcp = next_ref s
      in (dcp, s\<lparr>conns := h(dcp \<mapsto> DcpConsumer_new cookie conn_name),
                 next_ref := Suc dcp,
                 all := all' @ [dcp],
                 cookie_map := map_assign cookie dcp (cookie_map s)\<rparr>))"

definition newProducer ::
  "(cookie \<Rightarrow> string \<Rightarrow> bool \<Rightarrow> ConnHandler) \<Rightarrow> cookie \<Rightarrow> string \<Rightarrow> bool \<Rightarrow> DcpConnMap
     \<Rightarrow> conn_ref \<times> DcpConnMap"
where
  "newProducer DcpProducer_new cookie name notifyOnly s =
     (let conn_name = ''eq_dcpq:'' @ name;
          (h, all') = disconnectNamed conn_name (all s) (conns s);
          dcp = next_ref s
      in (dcp, s\<lparr>conns := h(dcp \<mapsto> DcpProducer_new cookie conn_name notifyOnly),
                 next_ref := Suc dcp,
                 all := all' @ [dcp],
                 cookie_map := map_assign cookie dcp (cookie_map s)\<rparr>))"

text \<open>
  \<^verbatim>\<open>dynamic_cast<DcpConsumer*>\<close> of a null pointer or of a producer is null, and the loop
  goes on to the next connection.
\<close>

fun isPassiveStreamConnected_UNLOCKED ::
  "(conn_ref \<rightharpoonup> ConnHandler) \<Rightarrow> conn_ref list \<Rightarrow> vbid \<Rightarrow> bool"
where
  "isPassiveStreamConnected_UNLOCKED h [] vbucket = False"
| "isPassiveStreamConnected_UNLOCKED h (it # rest) vbucket =
     (case h it of
        None \<Rightarrow> isPassiveStreamConnected_UNLOCKED h rest vbucket
      | Some c \<Rightarrow>
          if handler_class c = DcpConsumer \<and> streamPresent c vbucket then True
          else isPassiveStreamConnected_UNLOCKED h rest vbucket)"

text \<open>
  \<^verbatim>\<open>conn.addStream\<close> is a virtual member of the connection, defined in other files:
  the parameter \<open>addStream\<close> takes the connection, the three arguments and the state,
  and returns the error code and the new state.
\<close>

definition addPassiveStream ::
  "(conn_ref \<Rightarrow> u32 \<Rightarrow> u16 \<Rightarrow> u32 \<Rightarrow> DcpConnMap \<Rightarrow> ENGINE_ERROR_CODE \<times> DcpConnMap)
     \<Rightarrow> conn_ref \<Rightarrow> u32 \<Rightarrow> u16 \<Rightarrow> u32 \<Rightarrow> DcpConnMap \<Rightarrow> ENGINE_ERROR_CODE \<times> DcpConnMap"
where
  "addPassiveStream addStream conn opaque vbucket flags_arg s =
     (if isPassiveStreamConnected_UNLOCKED (conns s) (all s) vbucket
      then (ENGINE_KEY_EEXISTS, s)
      else addStream conn opaque vbucket flags_arg s)"

subsection \<open>The periodic pass over the connections\<close>

definition maxIdleTime :: u32 where
  "maxIdleTime = 5"

text \<open>
  The first loop of \<^verbatim>\<open>manageConnections\<close> walks the cookie map and collects in \<open>toNotify\<close>
  the connections to signal. \<^verbatim>\<open>getLastWalkTime() + maxIdleTime\<close> is an unsigned 32-bit sum.
\<close>

fun collectToNotify ::
  "rel_time_t \<Rightarrow> (conn_ref \<rightharpoonup> ConnHandler) \<Rightarrow> (cookie \<times> conn_ref) list \<Rightarrow> conn_ref list
     \<Rightarrow> conn_ref list"
where
  "collectToNotify now h [] toNotify = toNotify"
| "collectToNotify now h ((k, conn) # rest) toNotify =
     collectToNotify now h rest
       (case h conn of
          None \<Rightarrow> toNotify
        | Some c \<Rightarrow>
            (case notifiable c of
               None \<Rightarrow> toNotify
             | Some tp \<Rightarrow>
                 if (paused tp \<or> disconnect c) \<and> reserved c
                 then (if \<not> notifySent tp \<or> lastWalkTime c + maxIdleTime < now
                       then toNotify @ [conn] else toNotify)
                 else toNotify))"

text \<open>
  The second loop calls \<^verbatim>\<open>engine.notifyIOComplete(cookie, ENGINE_SUCCESS)\<close> for each
  collected connection that is still reserved, and then \<^verbatim>\<open>tp->setNotifySent(true)\<close>. The
  calls are the output of the model, in order. Here \<open>tp\<close> is
  \<^verbatim>\<open>static_cast<Notifiable*>(static_cast<Producer*>(...))\<close>, which is non-null for a non-null
  pointer. For a \<^verbatim>\<open>DcpProducer\<close> the cast is valid and the flag of the connection is
  set. For a \<^verbatim>\<open>DcpConsumer\<close> the downcast to \<^verbatim>\<open>Producer*\<close> is invalid and the write does
  not reach the connection's flag: the model leaves the consumer as it is.
\<close>

definition setNotifySentAsProducer :: "ConnHandler \<Rightarrow> ConnHandler" where
  "setNotifySentAsProducer c =
     (if handler_class c = DcpProducer then setNotifySent True c else c)"

fun notifyLoop ::
  "conn_ref list \<Rightarrow> (conn_ref \<rightharpoonup> ConnHandler) \<Rightarrow> (cookie \<times> ENGINE_ERROR_CODE) list
     \<Rightarrow> (cookie \<times> ENGINE_ERROR_CODE) list \<times> (conn_ref \<rightharpoonup> ConnHandler)"
where
  "notifyLoop [] h calls = (calls, h)"
| "notifyLoop (it # rest) h calls =
     (case h it of
        None \<Rightarrow> notifyLoop rest h calls
      | Some c \<Rightarrow>
          if reserved c
          then notifyLoop rest (h(it \<mapsto> setNotifySentAsProducer c))
                 (calls @ [(handler_cookie c, ENGINE_SUCCESS)])
          else notifyLoop rest h calls)"

fun erase_first :: "('a \<Rightarrow> bool) \<Rightarrow> 'a list \<Rightarrow> 'a list" where
  "erase_first P [] = []"
| "erase_first P (x # xs) = (if P x then xs else x # erase_first P xs)"

text \<open>
  \<^verbatim>\<open>removeVBConnections\<close>: for a producer, each vbucket of its vbucket vector loses the
  first connection of \<open>vbConns\<close> that has the producer's cookie.
\<close>

definition removeVBConnections :: "conn_ref \<Rightarrow> DcpConnMap \<Rightarrow> DcpConnMap" where
  "removeVBConnections conn s =
     (case conns s conn of
        None \<Rightarrow> s
      | Some c \<Rightarrow>
          if handler_class c \<noteq> DcpProducer then s
          else s\<lparr>vbConns :=
                 fold (\<lambda>vbid vb_conns.
                         vb_conns(vbid :=
                           erase_first (\<lambda>itr. getCookie (conns s) itr = Some (handler_cookie c))
                             (vb_conns vbid)))
                   (vbVector c) (vbConns s)\<rparr>)"

text \<open>
  The last loop releases the dead connections. \<^verbatim>\<open>releaseReference\<close> is a member of the
  connection defined in another file; the parameter is its effect on the
  object.
\<close>

fun releaseLoop ::
  "(ConnHandler \<Rightarrow> ConnHandler) \<Rightarrow> conn_ref list \<Rightarrow> DcpConnMap \<Rightarrow> DcpConnMap"
where
  "releaseLoop releaseReference [] s = s"
| "releaseLoop releaseReference (conn # release) s =
     releaseLoop releaseReference release
       (removeVBConnections conn
          (s\<lparr>conns := (conns s)(conn := map_option releaseReference (conns s conn))\<rparr>))"

text \<open>
  \<open>now\<close> is the value of \<^verbatim>\<open>ep_current_time()\<close>. The dead connections move to \<open>release\<close>
  in order, which empties \<open>deadConnections\<close>.
\<close>

definition manageConnections ::
  "rel_time_t \<Rightarrow> (ConnHandler \<Rightarrow> ConnHandler) \<Rightarrow> DcpConnMap
     \<Rightarrow> (cookie \<times> ENGINE_ERROR_CODE) list \<times> DcpConnMap"
where
  "manageConnections now releaseReference s =
     (let release = deadConnections s;
          toNotify = collectToNotify now (conns s) (cookie_map s) [];
          (calls, h) = notifyLoop toNotify (conns s) []
      in (calls, releaseLoop releaseReference release (s\<lparr>deadConnections := [], conns := h\<rparr>)))"

text \<open>
  When a connection is due for a wakeup in a pass, as the specification words it: the
  connection is notifiable and reserved, it is paused or marked for disconnect, and it
  has not been sent a notify or its last walk time plus the maximum idle time of 5
  seconds is earlier than \<open>now\<close>.
\<close>

definition due_for_notify :: "rel_time_t \<Rightarrow> ConnHandler \<Rightarrow> bool" where
  "due_for_notify now c \<longleftrightarrow>
     (case notifiable c of
        None \<Rightarrow> False
      | Some tp \<Rightarrow>
          reserved c \<and> (paused tp \<or> disconnect c)
          \<and> (\<not> notifySent tp \<or> lastWalkTime c + 5 < now))"

section \<open>Properties of the UPR consumer entry points\<close>

text \<open>
  Claim C7 says that \<^verbatim>\<open>uprFlush\<close> ignores its opaque and vbucket arguments and returns
  the result of the bucket-wide \<^verbatim>\<open>flush(cookie, 0)\<close> for every input. The code reaches
  the flush only through its \<^verbatim>\<open>LOG\<close> call, whose format has one conversion while no
  value is passed. What the code does: if that call does not return, \<^verbatim>\<open>uprFlush\<close> returns
  nothing and no flush happens; if it returns, the result is that of
  \<^verbatim>\<open>flush(cookie, 0)\<close> on the state the call leaves, and never a per-vbucket flush.
\<close>

theorem uprFlush_log_argument_missing:
  "conversions received_flush_format = 1
   \<and> length ([] :: string list) < conversions received_flush_format
   \<and> (LOG received_flush_format [] (cookie, opaque, vbucket) s = None \<longrightarrow>
         uprFlush E LOG cookie opaque vbucket s = None)
   \<and> (\<forall>s1. LOG received_flush_format [] (cookie, opaque, vbucket) s = Some s1 \<longrightarrow>
         uprFlush E LOG cookie opaque vbucket s = Some (flush E cookie 0 s1))"
  by (simp add: uprFlush_def received_flush_format_def)

text \<open>
  A \<^verbatim>\<open>LOG\<close> that returns when every conversion has a value, and otherwise reads the
  missing value where the opaque lies and stops on anything but a null pointer: with
  opaque 0 the flush is done, with opaque 1 the call does not return.
\<close>

theorem uprFlush_log_argument_missing_witness:
  "uprFlush
      \<lparr>getEngineSpecific = (\<lambda>c s. (None :: unit option)),
       ConnHandlerMutate = (\<lambda>c k ck f e cs r vb force v nv s. (ENGINE_SUCCESS, k # s)),
       ConnHandlerDelete = (\<lambda>c k ck vb force m s. (ENGINE_SUCCESS, k # s)),
       flush = (\<lambda>ck w s. (ENGINE_SUCCESS, [])),
       nextCas = (\<lambda>s. (1, s)),
       DEFAULT_REV_SEQ_NUM = 1\<rparr>
      (\<lambda>format args (ck, opq, vb) s.
          if conversions format \<le> length args \<or> opq = 0 then Some s else None)
      7 0 2 [''key''] = Some (ENGINE_SUCCESS, [])
   \<and> uprFlush
      \<lparr>getEngineSpecific = (\<lambda>c s. (None :: unit option)),
       ConnHandlerMutate = (\<lambda>c k ck f e cs r vb force v nv s. (ENGINE_SUCCESS, k # s)),
       ConnHandlerDelete = (\<lambda>c k ck vb force m s. (ENGINE_SUCCESS, k # s)),
       flush = (\<lambda>ck w s. (ENGINE_SUCCESS, [])),
       nextCas = (\<lambda>s. (1, s)),
       DEFAULT_REV_SEQ_NUM = 1\<rparr>
      (\<lambda>format args (ck, opq, vb) s.
          if conversions format \<le> length args \<or> opq = 0 then Some s else None)
      7 1 2 [''key''] = None"
proof -
  let ?E = "\<lparr>getEngineSpecific = (\<lambda>c s. (None :: unit option)),
       ConnHandlerMutate = (\<lambda>c k ck f e cs r vb force v nv s. (ENGINE_SUCCESS, k # s)),
       ConnHandlerDelete = (\<lambda>c k ck vb force m s. (ENGINE_SUCCESS, k # s)),
       flush = (\<lambda>ck (w :: u64) (s :: string list). (ENGINE_SUCCESS, [])),
       nextCas = (\<lambda>s. (1, s)),
       DEFAULT_REV_SEQ_NUM = 1\<rparr>"
  let ?LOG = "\<lambda>format (args :: string list) (ck :: cookie, opq :: u32, vb :: u16) (s :: string list).
          if conversions format \<le> length args \<or> opq = 0 then Some s else None"
  have 0: "?LOG received_flush_format [] (7, 0, 2) [''key''] = Some [''key'']"
    by simp
  have 1: "?LOG received_flush_format [] (7, 1, 2) [''key''] = None"
    by (simp add: received_flush_format_def)
  from uprFlush_log_argument_missing [of ?LOG 7 0 2 "[''key'']" ?E]
       uprFlush_log_argument_missing [of ?LOG 7 1 2 "[''key'']" ?E] 0 1
  show ?thesis by simp
qed

text \<open>
  Claim C9. When the cookie carries no engine-specific consumer object, \<^verbatim>\<open>uprMutation\<close>
  and \<^verbatim>\<open>uprDeletion\<close> both return \<open>ENGINE_DISCONNECT\<close> and leave the engine state as it
  was, whatever \<^verbatim>\<open>ConnHandlerMutate\<close>, \<^verbatim>\<open>ConnHandlerDelete\<close> and \<^verbatim>\<open>Item::nextCas\<close> would
  do: none of them is reached, so nothing is applied to any vbucket.
\<close>

theorem upr_no_consumer_disconnect:
  assumes "getEngineSpecific E cookie s = None"
  shows "uprMutation E cookie opaque key nkey val nvalue cas_arg vbucket flags_arg datatype
           bySeqno revSeqno_arg expiration lockTime s = (ENGINE_DISCONNECT, s)
         \<and> uprDeletion E cookie opaque key nkey cas_arg vbucket bySeqno revSeqno_arg s
             = (ENGINE_DISCONNECT, s)"
  using assms by (simp add: uprMutation_def uprDeletion_def)

text \<open>
  An engine whose state is a list of applied operations and in which no cookie has a
  consumer: a mutation and a deletion both disconnect and the list stays empty.
\<close>

theorem upr_no_consumer_disconnect_witness:
  "uprMutation
      \<lparr>getEngineSpecific = (\<lambda>c s. (None :: unit option)),
       ConnHandlerMutate = (\<lambda>c k ck f e cs r vb force v nv s. (ENGINE_SUCCESS, k # s)),
       ConnHandlerDelete = (\<lambda>c k ck vb force m s. (ENGINE_SUCCESS, k # s)),
       flush = (\<lambda>ck w s. (ENGINE_SUCCESS, [])),
       nextCas = (\<lambda>s. (1, s)),
       DEFAULT_REV_SEQ_NUM = 1\<rparr>
      7 0 ''key'' 3 ''value'' 5 0 2 0 0 10 1 0 0 [] = (ENGINE_DISCONNECT, [])
   \<and> uprDeletion
      \<lparr>getEngineSpecific = (\<lambda>c s. (None :: unit option)),
       ConnHandlerMutate = (\<lambda>c k ck f e cs r vb force v nv s. (ENGINE_SUCCESS, k # s)),
       ConnHandlerDelete = (\<lambda>c k ck vb force m s. (ENGINE_SUCCESS, k # s)),
       flush = (\<lambda>ck w s. (ENGINE_SUCCESS, [])),
       nextCas = (\<lambda>s. (1, s)),
       DEFAULT_REV_SEQ_NUM = 1\<rparr>
      7 0 ''key'' 3 0 2 10 1 [] = (ENGINE_DISCONNECT, [])"
  by (rule upr_no_consumer_disconnect) simp

text \<open>
  Claim C10. \<^verbatim>\<open>uprExpiration\<close> forwards its eight arguments unchanged to \<^verbatim>\<open>uprDeletion\<close>
  and returns its result: the two are the same function of the arguments and the engine
  state.
\<close>

theorem uprExpiration_is_uprDeletion:
  "uprExpiration E cookie opaque key nkey cas_arg vbucket bySeqno revSeqno_arg s
     = uprDeletion E cookie opaque key nkey cas_arg vbucket bySeqno revSeqno_arg s"
  by (simp add: uprExpiration_def)

section \<open>Properties of the checkpoint processor's work queue\<close>

lemma queue_unique_new: "queue_unique (newCheckpointProcessorTask n)"
  by (simp add: queue_unique_def newCheckpointProcessorTask_def)

lemma queue_unique_pushUnique:
  assumes "queue_unique t"
  shows "queue_unique (pushUnique stream t)"
  using assms by (auto simp: queue_unique_def pushUnique_def)

lemma queue_unique_queuePop:
  assumes "queue_unique t"
  shows "queue_unique (snd (queuePop t))"
proof (cases "queue t")
  case Nil
  with assms show ?thesis by (simp add: queuePop_def)
next
  case (Cons rval rest)
  from assms Cons have d: "getVBucket rval \<notin> set (map getVBucket rest)"
    and r: "distinct (map getVBucket rest)"
    and q: "queuedVbuckets t = insert (getVBucket rval) (set (map getVBucket rest))"
    by (auto simp: queue_unique_def)
  from d q have "queuedVbuckets t - {getVBucket rval} = set (map getVBucket rest)"
    by auto
  with r Cons show ?thesis
    by (simp add: queue_unique_def queuePop_def)
qed

text \<open>
  Claim C4. A vbucket id never occurs twice in the work queue. \<^verbatim>\<open>pushUnique\<close> enqueues a
  stream exactly when its vbucket id is not in \<open>queuedVbuckets\<close>, inserting the id as it
  does; otherwise it changes nothing. \<^verbatim>\<open>queuePop\<close> takes the front stream and erases its
  vbucket id. The invariant \<open>queue_unique\<close> (the vbucket ids of the queued streams are
  pairwise different and are exactly \<open>queuedVbuckets\<close>) holds for the task as constructed
  and is preserved by every \<^verbatim>\<open>pushUnique\<close> and every \<^verbatim>\<open>queuePop\<close>.
\<close>

theorem checkpoint_queue_dedup:
  assumes "queue_unique t"
  shows "queue_unique (pushUnique stream t)
       \<and> queue_unique (snd (queuePop t))
       \<and> distinct (map getVBucket (queue (pushUnique stream t)))
       \<and> distinct (map getVBucket (queue (snd (queuePop t))))
       \<and> (getVBucket stream \<in> queuedVbuckets t \<longrightarrow> pushUnique stream t = t)
       \<and> (getVBucket stream \<notin> queuedVbuckets t \<longrightarrow>
             queue (pushUnique stream t) = queue t @ [stream]
             \<and> queuedVbuckets (pushUnique stream t)
                 = insert (getVBucket stream) (queuedVbuckets t))
       \<and> (\<forall>rval t'. queuePop t = (Some rval, t') \<longrightarrow>
             queue t = rval # queue t'
             \<and> queuedVbuckets t' = queuedVbuckets t - {getVBucket rval}
             \<and> getVBucket rval \<notin> set (map getVBucket (queue t')))
       \<and> queue_unique (newCheckpointProcessorTask yieldLimit)"
proof -
  have a: "queue_unique (pushUnique stream t)"
    using assms by (rule queue_unique_pushUnique)
  have b: "queue_unique (snd (queuePop t))"
    using assms by (rule queue_unique_queuePop)
  from a have c: "distinct (map getVBucket (queue (pushUnique stream t)))"
    by (simp add: queue_unique_def)
  from b have d: "distinct (map getVBucket (queue (snd (queuePop t))))"
    by (simp add: queue_unique_def)
  have e: "getVBucket stream \<in> queuedVbuckets t \<longrightarrow> pushUnique stream t = t"
    by (simp add: pushUnique_def)
  have f: "getVBucket stream \<notin> queuedVbuckets t \<longrightarrow>
             queue (pushUnique stream t) = queue t @ [stream]
             \<and> queuedVbuckets (pushUnique stream t)
                 = insert (getVBucket stream) (queuedVbuckets t)"
    by (simp add: pushUnique_def)
  have g: "\<forall>rval t'. queuePop t = (Some rval, t') \<longrightarrow>
             queue t = rval # queue t'
             \<and> queuedVbuckets t' = queuedVbuckets t - {getVBucket rval}
             \<and> getVBucket rval \<notin> set (map getVBucket (queue t'))"
    using assms by (auto simp: queuePop_def queue_unique_def split: list.splits)
  have h: "queue_unique (newCheckpointProcessorTask yieldLimit)"
    by (rule queue_unique_new)
  from a b c d e f g h show ?thesis by blast
qed

text \<open>
  A task with streams for vbuckets 7 and 3 queued: pushing the stream of vbucket 7 again
  changes nothing, and popping leaves the stream of vbucket 3 with \<open>queuedVbuckets = {3}\<close>.
\<close>

theorem checkpoint_queue_dedup_witness:
  "let a = \<lparr>stream_name = ''eq_dcpq:replica'', stream_flags = 0, stream_opaque = 1, stream_vb = 7,
             start_seqno = 0, end_seqno = 100, vb_uuid = 5, snap_start_seqno = 0,
             snap_end_seqno = 0, stream_state = STREAM_IN_MEMORY, stream_type = STREAM_ACTIVE,
             itemsReady = False, readyQueueMemory = 0\<rparr>;
       b = a\<lparr>stream_vb := 3\<rparr>;
       t = \<lparr>queue = [a, b], queuedVbuckets = {7, 3}, notified = False,
            iterationsBeforeYield = 10\<rparr>
   in queue_unique t
      \<and> pushUnique a t = t
      \<and> queue_unique (pushUnique a t)
      \<and> queue (snd (queuePop t)) = [b]
      \<and> queuedVbuckets (snd (queuePop t)) = {3}
      \<and> queue_unique (snd (queuePop t))"
proof -
  let ?a = "\<lparr>stream_name = ''eq_dcpq:replica'', stream_flags = 0, stream_opaque = 1, stream_vb = 7,
             start_seqno = 0, end_seqno = 100, vb_uuid = 5, snap_start_seqno = 0,
             snap_end_seqno = 0, stream_state = STREAM_IN_MEMORY, stream_type = STREAM_ACTIVE,
             itemsReady = False, readyQueueMemory = 0\<rparr>"
  let ?t = "\<lparr>queue = [?a, ?a\<lparr>stream_vb := 3\<rparr>], queuedVbuckets = {7, 3}, notified = False,
            iterationsBeforeYield = 10\<rparr>"
  have inv: "queue_unique ?t"
    by (simp add: queue_unique_def getVBucket_def)
  have pop: "queuePop ?t = (Some ?a, ?t\<lparr>queue := [?a\<lparr>stream_vb := 3\<rparr>], queuedVbuckets := {3}\<rparr>)"
    by (simp add: queuePop_def getVBucket_def)
  from checkpoint_queue_dedup [OF inv, of ?a] inv pop show ?thesis
    by (simp add: Let_def getVBucket_def)
qed

section \<open>Properties of the double-precision arithmetic\<close>

text \<open>
  \<open>binade\<close> is the binary exponent; rounding is monotone, exact on integers below
  \<open>2 ^ 53\<close>, and exceeds its argument by at most one part in \<open>2 ^ 53\<close>.
\<close>

lemma binade_bounds:
  assumes "0 < x"
  shows "2 powi binade x \<le> x \<and> x < 2 powi (binade x + 1)"
proof (cases "1 \<le> x")
  case True
  then have fpos: "0 < \<lfloor>x\<rfloor>" by simp
  from bitlen_bounds [OF fpos]
  have lo: "2 ^ nat (bitlen \<lfloor>x\<rfloor> - 1) \<le> \<lfloor>x\<rfloor>" and hi: "\<lfloor>x\<rfloor> < 2 ^ nat (bitlen \<lfloor>x\<rfloor>)"
    by auto
  from fpos have b1: "1 \<le> bitlen \<lfloor>x\<rfloor>"
    using bitlen_eq_zero_iff [of "\<lfloor>x\<rfloor>"] bitlen_nonneg [of "\<lfloor>x\<rfloor>"] by linarith
  have "(2::rat) powi (bitlen \<lfloor>x\<rfloor> - 1) = 2 ^ nat (bitlen \<lfloor>x\<rfloor> - 1)"
    using b1 by (simp add: power_int_nonneg_exp)
  also have "\<dots> = of_int (2 ^ nat (bitlen \<lfloor>x\<rfloor> - 1))" by simp
  also have "\<dots> \<le> of_int \<lfloor>x\<rfloor>" using lo by (simp only: of_int_le_iff)
  also have "\<dots> \<le> x" by simp
  finally have A: "2 powi (bitlen \<lfloor>x\<rfloor> - 1) \<le> x" .
  have "x < of_int (\<lfloor>x\<rfloor> + 1)" by linarith
  also have "\<dots> \<le> of_int (2 ^ nat (bitlen \<lfloor>x\<rfloor>))"
    using hi by (simp only: of_int_le_iff)
  also have "\<dots> = 2 powi (bitlen \<lfloor>x\<rfloor>)"
    using b1 by (simp add: power_int_nonneg_exp)
  finally have B: "x < 2 powi (bitlen \<lfloor>x\<rfloor> - 1 + 1)" by simp
  from A B True show ?thesis by (simp add: binade_def)
next
  case False
  with assms have x1: "x < 1" by simp
  let ?c = "\<lceil>1 / x\<rceil>"
  from assms x1 have "1 < 1 / x" by simp
  then have c2: "2 \<le> ?c" by linarith
  then have cpos: "0 < ?c - 1" by simp
  let ?f = "bitlen (?c - 1)"
  from bitlen_bounds [OF cpos]
  have lo: "2 ^ nat (?f - 1) \<le> ?c - 1" and hi: "?c - 1 < 2 ^ nat ?f"
    by auto
  from cpos have f1: "1 \<le> ?f"
    using bitlen_eq_zero_iff [of "?c - 1"] bitlen_nonneg [of "?c - 1"] by linarith
  have "1 / x \<le> of_int ?c" by simp
  also have "\<dots> \<le> of_int (2 ^ nat ?f)"
    using hi by (simp only: of_int_le_iff)
  also have "\<dots> = 2 powi ?f" using f1 by (simp add: power_int_nonneg_exp)
  finally have "1 / x \<le> 2 powi ?f" .
  then have "1 \<le> 2 powi ?f * x" using assms by (simp add: field_simps)
  then have A: "2 powi (- ?f) \<le> x"
    by (simp add: power_int_minus field_simps)
  have "(2::rat) powi (?f - 1) = of_int (2 ^ nat (?f - 1))"
    using f1 by (simp add: power_int_nonneg_exp)
  also have "\<dots> \<le> of_int (?c - 1)" using lo by (simp only: of_int_le_iff)
  also have "\<dots> < 1 / x" by linarith
  finally have "2 powi (?f - 1) < 1 / x" .
  then have "2 powi (?f - 1) * x < 1" using assms by (simp add: field_simps)
  then have "x < 1 / 2 powi (?f - 1)"
    by (simp add: field_simps)
  also have "\<dots> = 2 powi (- ?f + 1)"
    by (simp add: power_int_minus_divide [symmetric])
  finally have B: "x < 2 powi (- ?f + 1)" .
  from A B False show ?thesis by (simp add: binade_def)
qed


lemma two_powi_less_imp:
  assumes "(2::rat) powi m < 2 powi n"
  shows "m < n"
proof (rule ccontr)
  assume "\<not> m < n"
  then have "n \<le> m" by simp
  then have "(2::rat) powi n \<le> 2 powi m" by (rule power_int_increasing) simp
  with assms show False by simp
qed

lemma binade_unique:
  assumes "0 < x" and "2 powi e \<le> x" and "x < 2 powi (e + 1)"
  shows "binade x = e"
proof -
  from binade_bounds [OF assms(1)]
  have lo: "2 powi binade x \<le> x" and hi: "x < 2 powi (binade x + 1)" by auto
  have "(2::rat) powi e < 2 powi (binade x + 1)" using assms(2) hi by simp
  then have 1: "e < binade x + 1" by (rule two_powi_less_imp)
  have "(2::rat) powi binade x < 2 powi (e + 1)" using lo assms(3) by simp
  then have 2: "binade x < e + 1" by (rule two_powi_less_imp)
  from 1 2 show ?thesis by simp
qed

lemma round_ties_even_of_int: "round_ties_even (of_int n) = n"
  by (simp add: round_ties_even_def)

lemma round_ties_even_floor:
  "\<lfloor>x\<rfloor> \<le> round_ties_even x \<and> round_ties_even x \<le> \<lfloor>x\<rfloor> + 1"
  by (simp add: round_ties_even_def Let_def)

lemma round_ties_even_upper: "of_int (round_ties_even x) \<le> x + 1 / 2"
proof -
  have "of_int \<lfloor>x\<rfloor> \<le> x" by simp
  moreover have "x - of_int \<lfloor>x\<rfloor> < 1 / 2 \<or> 1 / 2 \<le> x - of_int \<lfloor>x\<rfloor>" by linarith
  ultimately show ?thesis
    unfolding round_ties_even_def Let_def
    by (simp only: of_int_add of_int_1 split: if_split) linarith
qed

lemma round_ties_even_mono:
  assumes "x \<le> y"
  shows "round_ties_even x \<le> round_ties_even y"
proof (cases "\<lfloor>x\<rfloor> = \<lfloor>y\<rfloor>")
  case True
  with assms show ?thesis
    by (auto simp: round_ties_even_def Let_def)
next
  case False
  with assms have "\<lfloor>x\<rfloor> < \<lfloor>y\<rfloor>"
    using floor_mono [OF assms] by simp
  then have "\<lfloor>x\<rfloor> + 1 \<le> \<lfloor>y\<rfloor>" by simp
  with round_ties_even_floor [of x] round_ties_even_floor [of y]
  show ?thesis by linarith
qed


lemma ulp_pos: "0 < ulp x"
  by (simp add: ulp_def)

lemma round_double_0: "round_double 0 = 0"
  by (simp add: round_double_def)

lemma round_double_pos:
  assumes "0 < x"
  shows "round_double x = of_int (round_ties_even (x / ulp x)) * ulp x"
  using assms by (simp add: round_double_def)

lemma scaled_range:
  assumes "0 < x"
  shows "2 ^ 52 \<le> x / ulp x \<and> x / ulp x < 2 ^ 53"
proof -
  from binade_bounds [OF assms]
  have lo: "2 powi binade x \<le> x" and hi: "x < 2 powi (binade x + 1)" by auto
  have u: "ulp x * 2 ^ 52 = 2 powi binade x"
    by (simp add: ulp_def power_int_diff)
  have u': "ulp x * 2 ^ 53 = 2 powi (binade x + 1)"
    by (simp add: ulp_def power_int_diff power_int_add)
  from lo u have "ulp x * 2 ^ 52 \<le> x" by simp
  then have A: "2 ^ 52 \<le> x / ulp x"
    using ulp_pos [of x] by (simp add: field_simps)
  from hi u' have "x < ulp x * 2 ^ 53" by simp
  then have B: "x / ulp x < 2 ^ 53"
    using ulp_pos [of x] by (simp add: field_simps)
  from A B show ?thesis by simp
qed

lemma round_double_range:
  assumes "0 < x"
  shows "2 powi binade x \<le> round_double x \<and> round_double x \<le> 2 powi (binade x + 1)"
proof -
  let ?t = "x / ulp x"
  from scaled_range [OF assms] have lo: "2 ^ 52 \<le> ?t" and hi: "?t < 2 ^ 53" by auto
  have "round_ties_even (of_int (2 ^ 52)) \<le> round_ties_even ?t"
    by (rule round_ties_even_mono) (use lo in simp)
  then have A: "2 ^ 52 \<le> round_ties_even ?t"
    by (simp only: round_ties_even_of_int)
  have "round_ties_even ?t \<le> round_ties_even (of_int (2 ^ 53))"
    by (rule round_ties_even_mono) (use hi in simp)
  then have B: "round_ties_even ?t \<le> 2 ^ 53"
    by (simp only: round_ties_even_of_int)
  have u: "2 ^ 52 * ulp x = 2 powi binade x"
    by (simp add: ulp_def power_int_diff)
  have u': "2 ^ 53 * ulp x = 2 powi (binade x + 1)"
    by (simp add: ulp_def power_int_diff power_int_add)
  from A have "(2 ^ 52 :: rat) \<le> of_int (round_ties_even ?t)"
    by (metis of_int_le_iff of_int_numeral of_int_power)
  then have "2 ^ 52 * ulp x \<le> of_int (round_ties_even ?t) * ulp x"
    using ulp_pos [of x] by (simp add: mult_right_mono)
  with u have C: "2 powi binade x \<le> round_double x"
    by (simp add: round_double_pos [OF assms])
  from B have "of_int (round_ties_even ?t) \<le> (2 ^ 53 :: rat)"
    by (metis of_int_le_iff of_int_numeral of_int_power)
  then have "of_int (round_ties_even ?t) * ulp x \<le> 2 ^ 53 * ulp x"
    using ulp_pos [of x] by (simp add: mult_right_mono)
  with u' have D: "round_double x \<le> 2 powi (binade x + 1)"
    by (simp add: round_double_pos [OF assms])
  from C D show ?thesis by simp
qed

lemma round_double_nonneg:
  assumes "0 \<le> x"
  shows "0 \<le> round_double x"
proof (cases "x = 0")
  case True
  then show ?thesis by (simp add: round_double_0)
next
  case False
  with assms have "0 < x" by simp
  from round_double_range [OF this] have "2 powi binade x \<le> round_double x" by simp
  moreover have "(0::rat) < 2 powi binade x" by simp
  ultimately show ?thesis by linarith
qed

lemma round_double_mono:
  assumes "0 \<le> x" and "x \<le> y"
  shows "round_double x \<le> round_double y"
proof (cases "x = 0")
  case True
  with assms round_double_nonneg [of y] show ?thesis by (simp add: round_double_0)
next
  case False
  with assms have xpos: "0 < x" and ypos: "0 < y" by simp_all
  from binade_bounds [OF xpos] binade_bounds [OF ypos] assms(2)
  have "(2::rat) powi binade x < 2 powi (binade y + 1)" by linarith
  then have le: "binade x \<le> binade y" using two_powi_less_imp by fastforce
  show ?thesis
  proof (cases "binade x = binade y")
    case True
    then have u: "ulp x = ulp y" by (simp add: ulp_def)
    have "x / ulp y \<le> y / ulp y"
      using assms(2) ulp_pos [of y] by (simp add: divide_right_mono)
    then have "round_ties_even (x / ulp y) \<le> round_ties_even (y / ulp y)"
      by (rule round_ties_even_mono)
    then have "(of_int (round_ties_even (x / ulp y)) :: rat) \<le> of_int (round_ties_even (y / ulp y))"
      by (simp only: of_int_le_iff)
    then have "of_int (round_ties_even (x / ulp y)) * ulp y
                 \<le> of_int (round_ties_even (y / ulp y)) * ulp y"
      using ulp_pos [of y] by (simp add: mult_right_mono)
    then show ?thesis
      by (simp add: round_double_pos [OF xpos] round_double_pos [OF ypos] u)
  next
    case False
    with le have "binade x + 1 \<le> binade y" by simp
    then have "(2::rat) powi (binade x + 1) \<le> 2 powi binade y"
      by (rule power_int_increasing) simp
    with round_double_range [OF xpos] round_double_range [OF ypos]
    show ?thesis by linarith
  qed
qed

lemma round_double_upper:
  assumes "0 \<le> x"
  shows "round_double x \<le> x * (1 + 1 / 2 ^ 53)"
proof (cases "x = 0")
  case True
  then show ?thesis by (simp add: round_double_0)
next
  case False
  with assms have xpos: "0 < x" by simp
  let ?t = "x / ulp x"
  have "of_int (round_ties_even ?t) * ulp x \<le> (?t + 1 / 2) * ulp x"
    using round_ties_even_upper [of ?t] ulp_pos [of x] by (simp add: mult_right_mono)
  also have "\<dots> = x + ulp x / 2"
    using ulp_pos [of x] by (simp add: field_simps)
  finally have A: "round_double x \<le> x + ulp x / 2"
    by (simp add: round_double_pos [OF xpos])
  from scaled_range [OF xpos] have "2 ^ 52 \<le> x / ulp x" by simp
  then have "ulp x * 2 ^ 52 \<le> x" using ulp_pos [of x] by (simp add: field_simps)
  then have "ulp x / 2 \<le> x / 2 ^ 53" by simp
  with A show ?thesis by (simp add: field_simps)
qed

lemma round_double_exact:
  assumes "n < 2 ^ 53"
  shows "round_double (of_nat n) = of_nat n"
proof (cases "n = 0")
  case True
  then show ?thesis by (simp add: round_double_0)
next
  case False
  then have xpos: "(0::rat) < of_nat n" by simp
  let ?x = "of_nat n :: rat"
  let ?e = "binade ?x"
  from binade_bounds [OF xpos] have "2 powi ?e \<le> ?x" by simp
  also have "?x < 2 ^ 53" using assms
    by (metis of_nat_less_iff of_nat_numeral of_nat_power)
  finally have "(2::rat) powi ?e < 2 powi 53" by simp
  then have e: "?e < 53" by (rule two_powi_less_imp)
  define k where "k = nat (52 - ?e)"
  have u: "ulp ?x = 1 / 2 ^ k"
  proof -
    have "binade ?x - 52 = - int k" using e by (simp add: k_def)
    then show ?thesis by (simp add: ulp_def power_int_minus_divide)
  qed
  have "?x / ulp ?x = of_int (int n * 2 ^ k)" by (simp add: u)
  then have "round_ties_even (?x / ulp ?x) = int n * 2 ^ k"
    by (simp only: round_ties_even_of_int)
  then show ?thesis
    by (simp add: round_double_pos [OF xpos] u)
qed

section \<open>The bound computed by updateMaxActiveSnoozingBackfills\<close>

text \<open>
  The percentage is the double nearest to 1/100, which is slightly above 1/100. The
  quotient is at least \<open>k\<close> when the data size is at least \<open>1024000 k\<close>, because rounding
  is monotone and exact on the integers involved; and three roundings cannot lift it
  to the next integer while the data size is below \<open>4096 * 1024000\<close>. So the truncated
  quotient is the integer quotient by 1024000 wherever the clamp does not hide it.
\<close>

lemma percent_value:
  "double_divide (double_of_nat (unat numBackfillsMemThreshold)) (double_of_nat 100)
     = 5764607523034235 / 2 ^ 59"
proof -
  have 1: "double_of_nat (unat numBackfillsMemThreshold) = 1"
    using round_double_exact [of 1] by (simp add: double_of_nat_def numBackfillsMemThreshold_def)
  have 2: "double_of_nat 100 = 100"
    using round_double_exact [of 100] by (simp add: double_of_nat_def)
  have "round_double (1 / 100) = 5764607523034235 / 2 ^ 59" by code_simp
  with 1 2 show ?thesis by (simp add: double_divide_def)
qed


lemma double_of_nat_exact: "n < 2 ^ 53 \<Longrightarrow> double_of_nat n = of_nat n"
  by (simp add: double_of_nat_def round_double_exact)

lemma three_roundings: "(1 + 1 / 2 ^ 53 :: rat) ^ 3 \<le> 1 + 1 / 2 ^ 51"
  by (simp add: power3_eq_cube)

lemma quotient_double_lower:
  assumes "k * 1024000 \<le> m" and "k \<le> 4096"
  shows "of_nat k \<le> quotient_double m"
proof -
  let ?P = "5764607523034235 / 2 ^ 59 :: rat"
  have k53: "k < 2 ^ 53" and kk53: "k * 1024000 < 2 ^ 53" and k10: "k * 10240 < 2 ^ 53"
    using assms(2) by simp_all
  have "double_of_nat (k * 1024000) \<le> double_of_nat m"
    unfolding double_of_nat_def
    by (rule round_double_mono) (use assms(1) in simp_all)
  then have d0: "of_nat (k * 1024000) \<le> double_of_nat m"
    by (simp only: double_of_nat_exact [OF kk53])
  have "(of_nat (k * 10240) :: rat) = of_nat (k * 1024000) / 100" by simp
  also have "\<dots> \<le> of_nat (k * 1024000) * ?P" by simp
  also have "\<dots> \<le> double_of_nat m * ?P"
    by (rule mult_right_mono [OF d0]) simp
  finally have "round_double (of_nat (k * 10240)) \<le> round_double (double_of_nat m * ?P)"
    by (intro round_double_mono) simp_all
  then have d1: "of_nat (k * 10240) \<le> double_mult (double_of_nat m) ?P"
    by (simp only: round_double_exact [OF k10] double_mult_def)
  have ten: "double_of_nat 10240 = 10240"
    using double_of_nat_exact [of 10240] by simp
  have "(of_nat k :: rat) = of_nat (k * 10240) / 10240" by simp
  also have "\<dots> \<le> double_mult (double_of_nat m) ?P / 10240"
    by (rule divide_right_mono [OF d1]) simp
  finally have "round_double (of_nat k) \<le> round_double (double_mult (double_of_nat m) ?P / 10240)"
    by (intro round_double_mono) simp_all
  then show ?thesis
    by (simp only: round_double_exact [OF k53] quotient_double_def double_divide_def ten)
qed

lemma quotient_double_upper:
  "quotient_double m \<le> double_of_nat m * (1 / 100) * (1 + 1 / 2 ^ 53) ^ 3 / 10240"
proof -
  let ?P = "5764607523034235 / 2 ^ 59 :: rat"
  let ?e = "1 + 1 / 2 ^ 53 :: rat"
  have d0: "0 \<le> double_of_nat m"
    unfolding double_of_nat_def by (rule round_double_nonneg) simp
  have P: "?P \<le> 1 / 100 * ?e" by simp
  have "double_mult (double_of_nat m) ?P \<le> double_of_nat m * ?P * ?e"
    unfolding double_mult_def by (rule round_double_upper) (use d0 in simp)
  also have "\<dots> \<le> double_of_nat m * (1 / 100 * ?e) * ?e"
    by (intro mult_right_mono mult_left_mono P d0) simp
  finally have d1: "double_mult (double_of_nat m) ?P \<le> double_of_nat m * (1 / 100) * ?e ^ 2"
    by (simp add: power2_eq_square mult.assoc)
  have d1n: "0 \<le> double_mult (double_of_nat m) ?P"
    unfolding double_mult_def by (rule round_double_nonneg) (use d0 in simp)
  have ten: "double_of_nat 10240 = 10240"
    using double_of_nat_exact [of 10240] by simp
  have "quotient_double m \<le> double_mult (double_of_nat m) ?P / 10240 * ?e"
    unfolding quotient_double_def double_divide_def ten
    by (rule round_double_upper) (use d1n in simp)
  also have "\<dots> \<le> double_of_nat m * (1 / 100) * ?e ^ 2 / 10240 * ?e"
    by (intro mult_right_mono divide_right_mono d1) simp_all
  also have "\<dots> = double_of_nat m * (1 / 100) * ?e ^ 3 / 10240"
    by (simp add: power2_eq_square power3_eq_cube)
  finally show ?thesis .
qed


lemma quotient_double_small:
  assumes "m < 4194304000"
  shows "nat \<lfloor>quotient_double m\<rfloor> = m div 1024000"
proof -
  let ?k = "m div 1024000"
  have k: "?k \<le> 4096" using assms by simp
  have "?k * 1024000 \<le> m" by simp
  from quotient_double_lower [OF this k] have lo: "of_nat ?k \<le> quotient_double m" .
  have m53: "m < 2 ^ 53" using assms by simp
  have "(of_nat m :: rat) < of_nat 4194304000"
    using assms by (simp only: of_nat_less_iff)
  then have "(of_nat m :: rat) < 2 ^ 51" by simp
  then have small: "(of_nat m :: rat) / 2 ^ 51 < 1" by simp
  have "quotient_double m \<le> of_nat m * (1 / 100) * (1 + 1 / 2 ^ 53) ^ 3 / 10240"
    using quotient_double_upper [of m] by (simp only: double_of_nat_exact [OF m53])
  also have "\<dots> \<le> of_nat m * (1 / 100) * (1 + 1 / 2 ^ 51) / 10240"
    by (intro divide_right_mono mult_left_mono three_roundings) simp_all
  also have "\<dots> = (of_nat m + of_nat m / 2 ^ 51) / 1024000"
    by (simp add: field_simps)
  also have "\<dots> < (of_nat m + 1) / 1024000"
    using small by (simp add: divide_strict_right_mono)
  also have "\<dots> \<le> of_nat (?k + 1)"
  proof -
    have "m + 1 \<le> (?k + 1) * 1024000"
      using div_mult_mod_eq [of m 1024000] pos_mod_bound [of 1024000 "int m"]
      by (simp add: Suc_le_eq dividend_less_times_div mult.commute)
    then have "(of_nat (m + 1) :: rat) \<le> of_nat ((?k + 1) * 1024000)"
      by (simp only: of_nat_le_iff)
    then show ?thesis by (simp add: field_simps)
  qed
  finally have hi: "quotient_double m < of_nat ?k + 1" by simp
  have "\<lfloor>quotient_double m\<rfloor> = int ?k"
    using lo hi by (simp add: floor_eq_iff)
  then show ?thesis by simp
qed


lemma quotient_double_large:
  assumes "4194304000 \<le> m"
  shows "4096 \<le> nat \<lfloor>quotient_double m\<rfloor>"
proof -
  have "4096 * 1024000 \<le> m" using assms by simp
  from quotient_double_lower [OF this] have "of_nat 4096 \<le> quotient_double m" by simp
  then have "(4096::rat) \<le> quotient_double m" by simp
  then have "\<lfloor>4096::rat\<rfloor> \<le> \<lfloor>quotient_double m\<rfloor>" by (rule floor_mono)
  then have "4096 \<le> \<lfloor>quotient_double m\<rfloor>" by simp
  then show ?thesis by linarith
qed

lemma nat_less_of_less: "z < int n \<Longrightarrow> 0 < n \<Longrightarrow> nat z < n"
  by linarith

lemma quotient_double_range:
  assumes "m < 2 ^ 64"
  shows "nat \<lfloor>quotient_double m\<rfloor> < 2 ^ 64"
proof -
  have "(of_nat m :: rat) < of_nat (2 ^ 64)"
    using assms by (simp only: of_nat_less_iff)
  then have m: "(of_nat m :: rat) \<le> 2 ^ 64" by simp
  have "double_of_nat m \<le> of_nat m * (1 + 1 / 2 ^ 53)"
    unfolding double_of_nat_def by (rule round_double_upper) simp
  also have "\<dots> \<le> 2 ^ 64 * (1 + 1 / 2 ^ 53)"
    by (rule mult_right_mono [OF m]) simp
  finally have d0: "double_of_nat m \<le> 2 ^ 64 * (1 + 1 / 2 ^ 53)" .
  have "quotient_double m \<le> double_of_nat m * (1 / 100) * (1 + 1 / 2 ^ 53) ^ 3 / 10240"
    by (rule quotient_double_upper)
  also have "\<dots> \<le> (2 ^ 64 * (1 + 1 / 2 ^ 53)) * (1 / 100) * (1 + 1 / 2 ^ 53) ^ 3 / 10240"
    by (intro divide_right_mono mult_right_mono d0) simp_all
  also have "\<dots> < 2 ^ 64" by (simp add: power3_eq_cube)
  finally have "quotient_double m < 2 ^ 64" .
  moreover have "of_int \<lfloor>quotient_double m\<rfloor> \<le> quotient_double m" by simp
  ultimately have "(of_int \<lfloor>quotient_double m\<rfloor> :: rat) < of_int (2 ^ 64)" by simp
  then have "\<lfloor>quotient_double m\<rfloor> < 2 ^ 64" by (simp only: of_int_less_iff)
  then have "\<lfloor>quotient_double m\<rfloor> < int (2 ^ 64)" by simp
  then show ?thesis by (rule nat_less_of_less) simp
qed

lemma unat_min: "unat (min a b) = min (unat a) (unat b)"
  by (simp add: min_def word_le_nat_alt)

lemma unat_max: "unat (max a b) = max (unat a) (unat b)"
  by (simp add: max_def word_le_nat_alt)

lemma updateMax_value:
  "unat (maxActiveSnoozingBackfills (updateMaxActiveSnoozingBackfills maxDataSize s))
     = max 1 (min (unat maxDataSize div 1024000) 4096)"
proof -
  let ?m = "unat maxDataSize"
  let ?q = "nat \<lfloor>quotient_double ?m\<rfloor>"
  have m64: "?m < 2 ^ 64" using unsigned_less [of maxDataSize] by simp
  have db: "unat dbFileMem = 10240" by (simp add: dbFileMem_def)
  have th: "(ucast numBackfillsThreshold :: u64) = 4096" by (simp add: numBackfillsThreshold_def)
  have mx: "unat (size_t_of_double (quotient_double ?m)) = ?q"
    using quotient_double_range [OF m64]
    by (simp add: size_t_of_double_def unat_of_nat)
  have q: "min ?q 4096 = min (?m div 1024000) 4096"
  proof (cases "?m < 4194304000")
    case True
    then show ?thesis by (simp only: quotient_double_small)
  next
    case False
    then have "4194304000 \<le> ?m" by simp
    from quotient_double_large [OF this] False show ?thesis by simp
  qed
  have "unat (max 1 (min (size_t_of_double (quotient_double ?m)) (4096 :: u64)))
          = max 1 (min (?m div 1024000) 4096)"
    using q by (simp add: unat_max unat_min mx)
  moreover have "max 1 (min (?m div 1024000) 4096) < 2 ^ 16" by simp
  ultimately have
    "unat (ucast (max 1 (min (size_t_of_double (quotient_double ?m)) (4096 :: u64))) :: u16)
       = max 1 (min (?m div 1024000) 4096)"
    by (simp add: unsigned_ucast_eq take_bit_nat_eq_self)
  then show ?thesis
    by (simp add: updateMaxActiveSnoozingBackfills_def percent_value db th quotient_double_def Let_def)
qed

section \<open>Properties of backfill admission\<close>

lemma updateMax_frame:
  "updateMaxActiveSnoozingBackfills maxDataSize s
     = s\<lparr>maxActiveSnoozingBackfills :=
           maxActiveSnoozingBackfills (updateMaxActiveSnoozingBackfills maxDataSize s)\<rparr>"
  by (simp add: updateMaxActiveSnoozingBackfills_def Let_def)

lemma updateMax_num:
  "numActiveSnoozingBackfills (updateMaxActiveSnoozingBackfills maxDataSize s)
     = numActiveSnoozingBackfills s"
  by (simp add: updateMaxActiveSnoozingBackfills_def Let_def)

lemma updateMax_word:
  "maxActiveSnoozingBackfills (updateMaxActiveSnoozingBackfills maxDataSize s)
     = of_nat (max 1 (min (unat maxDataSize div 1024000) 4096))"
proof -
  have "maxActiveSnoozingBackfills (updateMaxActiveSnoozingBackfills maxDataSize s)
          = of_nat (unat (maxActiveSnoozingBackfills (updateMaxActiveSnoozingBackfills maxDataSize s)))"
    by simp
  then show ?thesis by (simp only: updateMax_value)
qed

lemma integer_quotient:
  "nat \<lfloor>of_nat m * (1 / 100) / of_nat (unat dbFileMem) :: rat\<rfloor> = m div 1024000"
proof -
  have "(of_nat m * (1 / 100) / of_nat (unat dbFileMem) :: rat) = of_nat m / of_nat 1024000"
    by (simp add: dbFileMem_def)
  then have "\<lfloor>of_nat m * (1 / 100) / of_nat (unat dbFileMem) :: rat\<rfloor> = int (m div 1024000)"
    by (simp only: floor_divide_of_nat_eq)
  then show ?thesis by simp
qed

text \<open>
  Claim C2. For every \<open>maxDataSize\<close>, \<^verbatim>\<open>updateMaxActiveSnoozingBackfills\<close> sets
  \<open>maxActiveSnoozingBackfills\<close> to \<open>maxDataSize\<close> times \<open>numBackfillsMemThreshold\<close> percent,
  divided by \<open>dbFileMem\<close> and truncated to an integer, clamped to the interval from 1 to
  \<open>numBackfillsThreshold\<close>: the result is
  \<open>max 1 (min \<lfloor>maxDataSize * (1 / 100) / dbFileMem\<rfloor> 4096)\<close>, with the quotient taken
  exactly. The rounding of the double-precision operations never shows in the result.
\<close>

theorem updateMax_clamped_quotient:
  "unat (maxActiveSnoozingBackfills (updateMaxActiveSnoozingBackfills maxDataSize s))
     = max 1 (min (nat \<lfloor>of_nat (unat maxDataSize) * (of_nat (unat numBackfillsMemThreshold) / 100)
                          / of_nat (unat dbFileMem) :: rat\<rfloor>)
                  (unat numBackfillsThreshold))
   \<and> 1 \<le> maxActiveSnoozingBackfills (updateMaxActiveSnoozingBackfills maxDataSize s)
   \<and> maxActiveSnoozingBackfills (updateMaxActiveSnoozingBackfills maxDataSize s)
       \<le> numBackfillsThreshold
   \<and> numBackfillsThreshold = 4096 \<and> numBackfillsMemThreshold = 1 \<and> dbFileMem = 10240"
proof -
  have pct: "(of_nat (unat numBackfillsMemThreshold) / 100 :: rat) = 1 / 100"
    by (simp add: numBackfillsMemThreshold_def)
  have th: "unat numBackfillsThreshold = 4096"
    by (simp add: numBackfillsThreshold_def)
  have v: "unat (maxActiveSnoozingBackfills (updateMaxActiveSnoozingBackfills maxDataSize s))
            = max 1 (min (unat maxDataSize div 1024000) 4096)"
    by (rule updateMax_value)
  have "unat (1 :: u16) \<le> unat (maxActiveSnoozingBackfills (updateMaxActiveSnoozingBackfills maxDataSize s))"
    by (simp add: v)
  then have lo: "1 \<le> maxActiveSnoozingBackfills (updateMaxActiveSnoozingBackfills maxDataSize s)"
    by (simp only: word_le_nat_alt)
  have "unat (maxActiveSnoozingBackfills (updateMaxActiveSnoozingBackfills maxDataSize s))
          \<le> unat numBackfillsThreshold"
    by (simp add: v th)
  then have hi: "maxActiveSnoozingBackfills (updateMaxActiveSnoozingBackfills maxDataSize s)
                   \<le> numBackfillsThreshold"
    by (simp only: word_le_nat_alt)
  have q: "nat \<lfloor>of_nat (unat maxDataSize) * (of_nat (unat numBackfillsMemThreshold) / 100)
                    / of_nat (unat dbFileMem) :: rat\<rfloor> = unat maxDataSize div 1024000"
    by (simp only: pct integer_quotient)
  have c: "numBackfillsThreshold = 4096 \<and> numBackfillsMemThreshold = 1 \<and> dbFileMem = 10240"
    by (simp add: numBackfillsThreshold_def numBackfillsMemThreshold_def dbFileMem_def)
  have A: "unat (maxActiveSnoozingBackfills (updateMaxActiveSnoozingBackfills maxDataSize s))
     = max 1 (min (nat \<lfloor>of_nat (unat maxDataSize) * (of_nat (unat numBackfillsMemThreshold) / 100)
                          / of_nat (unat dbFileMem) :: rat\<rfloor>)
                  (unat numBackfillsThreshold))"
    using v by (simp only: q th)
  from A lo hi c show ?thesis by blast
qed

text \<open>
  At 2048000 bytes the bound is 2; one byte less gives 1.
\<close>

theorem updateMax_clamped_quotient_witness:
  "unat (maxActiveSnoozingBackfills (updateMaxActiveSnoozingBackfills 2048000 (newDcpConnMap 0 0))) = 2
   \<and> unat (maxActiveSnoozingBackfills (updateMaxActiveSnoozingBackfills 2047999 (newDcpConnMap 0 0))) = 1"
proof -
  have pct: "(of_nat (unat numBackfillsMemThreshold) / 100 :: rat) = 1 / 100"
    by (simp add: numBackfillsMemThreshold_def)
  have 1: "nat \<lfloor>of_nat (unat (2048000 :: u64)) * (of_nat (unat numBackfillsMemThreshold) / 100)
             / of_nat (unat dbFileMem) :: rat\<rfloor> = 2"
    by (simp only: pct integer_quotient) simp
  have 2: "nat \<lfloor>of_nat (unat (2047999 :: u64)) * (of_nat (unat numBackfillsMemThreshold) / 100)
             / of_nat (unat dbFileMem) :: rat\<rfloor> = 1"
    by (simp only: pct integer_quotient) simp
  have 3: "unat numBackfillsThreshold = 4096"
    by (simp add: numBackfillsThreshold_def)
  note a = updateMax_clamped_quotient [of 2048000 "newDcpConnMap 0 0", THEN conjunct1]
  note b = updateMax_clamped_quotient [of 2047999 "newDcpConnMap 0 0", THEN conjunct1]
  from a [unfolded 1 3] b [unfolded 2 3] show ?thesis by simp
qed

lemma canAdd_within_max:
  assumes "backfills_within_max s"
  shows "backfills_within_max (snd (canAddBackfillToActiveQ s))"
proof (cases "numActiveSnoozingBackfills s < maxActiveSnoozingBackfills s")
  case True
  then have "numActiveSnoozingBackfills s + 1 \<le> maxActiveSnoozingBackfills s"
    by (rule inc_le)
  with True show ?thesis
    by (simp add: canAddBackfillToActiveQ_def backfills_within_max_def)
next
  case False
  with assms show ?thesis by (simp add: canAddBackfillToActiveQ_def)
qed

lemma decr_within_max:
  assumes "backfills_within_max s"
  shows "backfills_within_max (decrNumActiveSnoozingBackfills s)"
proof (cases "numActiveSnoozingBackfills s > 0")
  case True
  then have "numActiveSnoozingBackfills s - 1 \<le> numActiveSnoozingBackfills s"
    by (simp add: word_le_nat_alt unat_minus_one word_greater_zero_iff)
  with assms True show ?thesis
    by (simp add: decrNumActiveSnoozingBackfills_def backfills_within_max_def)
next
  case False
  with assms show ?thesis by (simp add: decrNumActiveSnoozingBackfills_def)
qed

lemma updateMax_within_max_iff:
  "backfills_within_max (updateMaxActiveSnoozingBackfills maxDataSize s)
     \<longleftrightarrow> unat (numActiveSnoozingBackfills s) \<le> max 1 (min (unat maxDataSize div 1024000) 4096)"
  by (simp only: backfills_within_max_def word_le_nat_alt updateMax_value updateMax_num)

lemma newDcpConnMap_within_max: "backfills_within_max (newDcpConnMap maxDataSize r)"
proof -
  have "numActiveSnoozingBackfills (newDcpConnMap maxDataSize r) = 0"
    by (simp add: newDcpConnMap_def updateMax_num)
  then show ?thesis by (simp add: backfills_within_max_def)
qed

lemma run_within_max:
  assumes "backfills_within_max s" and "max_respects_count xs s"
  shows "backfills_within_max (run_backfill_ops xs s)"
  using assms
proof (induction xs arbitrary: s)
  case Nil
  then show ?case by simp
next
  case (Cons x xs)
  have "backfills_within_max (apply_backfill_op x s)"
  proof (cases x)
    case CanAddBackfillToActiveQ
    with Cons.prems(1) show ?thesis by (simp add: canAdd_within_max)
  next
    case DecrNumActiveSnoozingBackfills
    with Cons.prems(1) show ?thesis by (simp add: decr_within_max)
  next
    case (UpdateMaxActiveSnoozingBackfills m)
    with Cons.prems(2) show ?thesis by (simp add: updateMax_within_max_iff)
  qed
  moreover from Cons.prems(2) have "max_respects_count xs (apply_backfill_op x s)" by simp
  ultimately show ?case using Cons.IH by simp
qed


lemma updateMax_eq:
  "updateMaxActiveSnoozingBackfills maxDataSize s
     = s\<lparr>maxActiveSnoozingBackfills := of_nat (max 1 (min (unat maxDataSize div 1024000) 4096))\<rparr>"
  using updateMax_frame [of maxDataSize s] by (simp only: updateMax_word)

text \<open>
  Claim C3, as stated: \<open>numActiveSnoozingBackfills \<le> maxActiveSnoozingBackfills\<close> after
  every interleaving of the three functions from the initial state. It fails: with a
  maximum data size of 2048000 the bound is 2; two backfills are admitted; lowering the
  data size to 0 then sets the bound to 1 while two backfills are active.
\<close>

theorem backfills_exceed_max_counterexample:
  "numActiveSnoozingBackfills
     (run_backfill_ops
        [CanAddBackfillToActiveQ, CanAddBackfillToActiveQ, UpdateMaxActiveSnoozingBackfills 0]
        (newDcpConnMap 2048000 0)) = 2
   \<and> maxActiveSnoozingBackfills
     (run_backfill_ops
        [CanAddBackfillToActiveQ, CanAddBackfillToActiveQ, UpdateMaxActiveSnoozingBackfills 0]
        (newDcpConnMap 2048000 0)) = 1
   \<and> \<not> backfills_within_max
     (run_backfill_ops
        [CanAddBackfillToActiveQ, CanAddBackfillToActiveQ, UpdateMaxActiveSnoozingBackfills 0]
        (newDcpConnMap 2048000 0))"
  by (simp add: newDcpConnMap_def updateMax_eq canAddBackfillToActiveQ_def backfills_within_max_def
        word_le_nat_alt)

text \<open>
  Claim C3, amended. \<open>numActiveSnoozingBackfills \<le> maxActiveSnoozingBackfills\<close> holds in
  the initial state and is preserved by \<^verbatim>\<open>canAddBackfillToActiveQ\<close> and
  \<^verbatim>\<open>decrNumActiveSnoozingBackfills\<close>; a call of \<^verbatim>\<open>updateMaxActiveSnoozingBackfills\<close>
  establishes it exactly when the bound it computes is at least the number of active
  backfills. So it holds after every interleaving of the three functions in which each
  \<^verbatim>\<open>updateMaxActiveSnoozingBackfills\<close> computes a bound that is at least the count at the
  time of the call.
\<close>

theorem backfills_within_max_preserved:
  "backfills_within_max (newDcpConnMap maxDataSize r)
   \<and> (backfills_within_max s \<longrightarrow>
         backfills_within_max (snd (canAddBackfillToActiveQ s))
         \<and> backfills_within_max (decrNumActiveSnoozingBackfills s))
   \<and> (backfills_within_max (updateMaxActiveSnoozingBackfills maxDataSize' s)
         \<longleftrightarrow> unat (numActiveSnoozingBackfills s) \<le> max 1 (min (unat maxDataSize' div 1024000) 4096))
   \<and> (backfills_within_max s \<longrightarrow> max_respects_count xs s \<longrightarrow>
         backfills_within_max (run_backfill_ops xs s))"
  using newDcpConnMap_within_max canAdd_within_max decr_within_max updateMax_within_max_iff
    run_within_max by blast

text \<open>
  From a data size of 2048000: admit one backfill, raise the bound to 4, admit another,
  finish one, lower the bound to 1. One backfill is active and the invariant holds.
\<close>

theorem backfills_within_max_preserved_witness:
  "max_respects_count
     [CanAddBackfillToActiveQ, UpdateMaxActiveSnoozingBackfills 4096000, CanAddBackfillToActiveQ,
      DecrNumActiveSnoozingBackfills, UpdateMaxActiveSnoozingBackfills 1024000]
     (newDcpConnMap 2048000 0)
   \<and> backfills_within_max
     (run_backfill_ops
        [CanAddBackfillToActiveQ, UpdateMaxActiveSnoozingBackfills 4096000, CanAddBackfillToActiveQ,
         DecrNumActiveSnoozingBackfills, UpdateMaxActiveSnoozingBackfills 1024000]
        (newDcpConnMap 2048000 0))
   \<and> numActiveSnoozingBackfills
     (run_backfill_ops
        [CanAddBackfillToActiveQ, UpdateMaxActiveSnoozingBackfills 4096000, CanAddBackfillToActiveQ,
         DecrNumActiveSnoozingBackfills, UpdateMaxActiveSnoozingBackfills 1024000]
        (newDcpConnMap 2048000 0)) = 1"
proof -
  let ?xs = "[CanAddBackfillToActiveQ, UpdateMaxActiveSnoozingBackfills 4096000,
              CanAddBackfillToActiveQ, DecrNumActiveSnoozingBackfills,
              UpdateMaxActiveSnoozingBackfills 1024000]"
  let ?s = "newDcpConnMap 2048000 0"
  have r: "max_respects_count ?xs ?s"
    by (simp add: newDcpConnMap_def updateMax_eq canAddBackfillToActiveQ_def
          decrNumActiveSnoozingBackfills_def)
  have n: "numActiveSnoozingBackfills (run_backfill_ops ?xs ?s) = 1"
    by (simp add: newDcpConnMap_def updateMax_eq canAddBackfillToActiveQ_def
          decrNumActiveSnoozingBackfills_def)
  from backfills_within_max_preserved [of 2048000 0 ?s 0 ?xs] r n
  show ?thesis by blast
qed

text \<open>
  Claim C8. The counter \<open>numActiveSnoozingBackfills\<close> never goes below zero, and each
  function reads its guard and writes the counter in one step (each holds
  \<^verbatim>\<open>numBackfillsLock\<close> for its whole body). \<^verbatim>\<open>decrNumActiveSnoozingBackfills\<close> subtracts one
  when the counter is positive and leaves the state as it is when the counter is zero, so
  the unsigned counter never wraps around. \<^verbatim>\<open>canAddBackfillToActiveQ\<close> returns true exactly
  when the counter is below the bound; it leaves the state unchanged when it returns
  false, and adds one, without overflow, when it returns true.
\<close>

theorem backfill_counter_guarded:
  "unat (numActiveSnoozingBackfills (decrNumActiveSnoozingBackfills s))
     = unat (numActiveSnoozingBackfills s) - 1
   \<and> (0 < numActiveSnoozingBackfills s \<longrightarrow>
         decrNumActiveSnoozingBackfills s
           = s\<lparr>numActiveSnoozingBackfills := numActiveSnoozingBackfills s - 1\<rparr>)
   \<and> (numActiveSnoozingBackfills s = 0 \<longrightarrow> decrNumActiveSnoozingBackfills s = s)
   \<and> (fst (canAddBackfillToActiveQ s)
         \<longleftrightarrow> numActiveSnoozingBackfills s < maxActiveSnoozingBackfills s)
   \<and> (\<not> fst (canAddBackfillToActiveQ s) \<longrightarrow> snd (canAddBackfillToActiveQ s) = s)
   \<and> (fst (canAddBackfillToActiveQ s) \<longrightarrow>
         snd (canAddBackfillToActiveQ s)
           = s\<lparr>numActiveSnoozingBackfills := numActiveSnoozingBackfills s + 1\<rparr>
         \<and> unat (numActiveSnoozingBackfills (snd (canAddBackfillToActiveQ s)))
             = unat (numActiveSnoozingBackfills s) + 1)"
proof -
  have a: "unat (numActiveSnoozingBackfills (decrNumActiveSnoozingBackfills s))
             = unat (numActiveSnoozingBackfills s) - 1"
    by (simp add: decrNumActiveSnoozingBackfills_def word_greater_zero_iff unat_minus_one)
  have b: "0 < numActiveSnoozingBackfills s \<longrightarrow>
         decrNumActiveSnoozingBackfills s
           = s\<lparr>numActiveSnoozingBackfills := numActiveSnoozingBackfills s - 1\<rparr>"
    by (simp add: decrNumActiveSnoozingBackfills_def)
  have c: "numActiveSnoozingBackfills s = 0 \<longrightarrow> decrNumActiveSnoozingBackfills s = s"
    by (simp add: decrNumActiveSnoozingBackfills_def)
  have d: "fst (canAddBackfillToActiveQ s)
         \<longleftrightarrow> numActiveSnoozingBackfills s < maxActiveSnoozingBackfills s"
    by (simp add: canAddBackfillToActiveQ_def)
  have e: "\<not> fst (canAddBackfillToActiveQ s) \<longrightarrow> snd (canAddBackfillToActiveQ s) = s"
    by (simp add: canAddBackfillToActiveQ_def)
  have f: "fst (canAddBackfillToActiveQ s) \<longrightarrow>
         snd (canAddBackfillToActiveQ s)
           = s\<lparr>numActiveSnoozingBackfills := numActiveSnoozingBackfills s + 1\<rparr>
         \<and> unat (numActiveSnoozingBackfills (snd (canAddBackfillToActiveQ s)))
             = unat (numActiveSnoozingBackfills s) + 1"
  proof
    assume "fst (canAddBackfillToActiveQ s)"
    with d have lt: "numActiveSnoozingBackfills s < maxActiveSnoozingBackfills s" by simp
    then have "unat (numActiveSnoozingBackfills s) < unat (maxActiveSnoozingBackfills s)"
      by (simp only: word_less_nat_alt)
    moreover have "unat (maxActiveSnoozingBackfills s) < 2 ^ 16"
      using unsigned_less [of "maxActiveSnoozingBackfills s"] by simp
    ultimately have "unat (numActiveSnoozingBackfills s) + unat (1 :: u16) < 2 ^ LENGTH(16)"
      by simp
    then have "unat (numActiveSnoozingBackfills s + 1) = unat (numActiveSnoozingBackfills s) + unat (1 :: u16)"
      by (simp only: unat_add_lem)
    then have "unat (numActiveSnoozingBackfills s + 1) = Suc (unat (numActiveSnoozingBackfills s))"
      by simp
    with lt show "snd (canAddBackfillToActiveQ s)
           = s\<lparr>numActiveSnoozingBackfills := numActiveSnoozingBackfills s + 1\<rparr>
         \<and> unat (numActiveSnoozingBackfills (snd (canAddBackfillToActiveQ s)))
             = unat (numActiveSnoozingBackfills s) + 1"
      by (simp add: canAddBackfillToActiveQ_def)
  qed
  from a b c d e f show ?thesis by blast
qed

text \<open>
  With no backfill active and a bound of 1: a decrement changes nothing, the first
  admission succeeds, the second is refused and changes nothing, and a decrement brings
  the counter back to zero.
\<close>

theorem backfill_counter_guarded_witness:
  "decrNumActiveSnoozingBackfills (newDcpConnMap 0 0) = newDcpConnMap 0 0
   \<and> fst (canAddBackfillToActiveQ (newDcpConnMap 0 0))
   \<and> unat (numActiveSnoozingBackfills (snd (canAddBackfillToActiveQ (newDcpConnMap 0 0)))) = 1
   \<and> \<not> fst (canAddBackfillToActiveQ (snd (canAddBackfillToActiveQ (newDcpConnMap 0 0))))
   \<and> snd (canAddBackfillToActiveQ (snd (canAddBackfillToActiveQ (newDcpConnMap 0 0))))
       = snd (canAddBackfillToActiveQ (newDcpConnMap 0 0))
   \<and> unat (numActiveSnoozingBackfills
        (decrNumActiveSnoozingBackfills (snd (canAddBackfillToActiveQ (newDcpConnMap 0 0))))) = 0"
proof -
  let ?s = "newDcpConnMap 0 0"
  have n: "numActiveSnoozingBackfills ?s = 0" and m: "maxActiveSnoozingBackfills ?s = 1"
    by (simp_all add: newDcpConnMap_def updateMax_eq)
  have n': "numActiveSnoozingBackfills (snd (canAddBackfillToActiveQ ?s)) = 1"
    and m': "maxActiveSnoozingBackfills (snd (canAddBackfillToActiveQ ?s)) = 1"
    by (simp_all add: canAddBackfillToActiveQ_def n m)
  from backfill_counter_guarded [of ?s] backfill_counter_guarded [of "snd (canAddBackfillToActiveQ ?s)"]
  show ?thesis by (simp add: n m n' m')
qed

section \<open>Properties of the registry\<close>

subsection \<open>Passive streams\<close>

lemma isPassiveStreamConnected_iff:
  "isPassiveStreamConnected_UNLOCKED h xs vbucket \<longleftrightarrow>
     (\<exists>it\<in>set xs. \<exists>c. h it = Some c \<and> handler_class c = DcpConsumer \<and> streamPresent c vbucket)"
  by (induction xs) (auto split: option.splits)

text \<open>
  Claim C1, as stated: if a passive stream for the vbucket is present on any consumer
  connection in the connection map, \<^verbatim>\<open>addPassiveStream\<close> returns \<open>ENGINE_KEY_EEXISTS\<close> and
  does not call \<open>addStream\<close>. It fails for a consumer that a connection of the same name
  has replaced: \<^verbatim>\<open>newConsumer\<close> erases the old consumer from \<open>all\<close> and leaves it in the
  cookie map with its streams. A consumer named replica is created with cookie 11 and
  given a passive stream for vbucket 7; a second consumer named replica is created with
  cookie 12. The first consumer, at address 0, is still in the cookie map and still has
  its stream for vbucket 7, yet adding a passive stream for vbucket 7 on the second
  consumer is the call of \<open>addStream\<close> and succeeds, and both consumers then have a
  passive stream for vbucket 7.
\<close>

theorem addPassiveStream_replaced_consumer_counterexample:
  "let DcpConsumer_new = (\<lambda>ck nm. \<lparr>handler_class = DcpConsumer, handler_name = nm,
           handler_cookie = ck, disconnect = False, reserved = True, lastWalkTime = 0,
           notifiable = Some \<lparr>paused = False, notifySent = False\<rparr>,
           streamPresent = (\<lambda>vb. False), vbVector = []\<rparr>);
       addStream = (\<lambda>conn opaque vb fl s.
           (ENGINE_SUCCESS,
            s\<lparr>conns := (conns s)(conn :=
                 map_option (\<lambda>c. c\<lparr>streamPresent := (streamPresent c)(vb := True)\<rparr>)
                   (conns s conn))\<rparr>));
       s1 = snd (newConsumer DcpConsumer_new 11 ''replica'' (newDcpConnMap 0 0));
       s2 = snd (addPassiveStream addStream 0 10 7 0 s1);
       s3 = snd (newConsumer DcpConsumer_new 12 ''replica'' s2);
       result = addPassiveStream addStream 1 11 7 0 s3
   in cookie_map s3 = [(11, 0), (12, 1)]
      \<and> all s3 = [1]
      \<and> map_option handler_class (conns s3 0) = Some DcpConsumer
      \<and> map_option (\<lambda>c. streamPresent c 7) (conns s3 0) = Some True
      \<and> fst result = ENGINE_SUCCESS
      \<and> fst result \<noteq> ENGINE_KEY_EEXISTS
      \<and> result = addStream 1 11 7 0 s3
      \<and> map_option (\<lambda>c. streamPresent c 7) (conns (snd result) 0) = Some True
      \<and> map_option (\<lambda>c. streamPresent c 7) (conns (snd result) 1) = Some True"
  by (simp add: Let_def newConsumer_def addPassiveStream_def newDcpConnMap_def updateMax_eq
        getName_def setDisconnect_def)

text \<open>
  Claim C1, amended. For every vbucket: if a connection of the list \<open>all\<close> (the
  connections that no connection of the same name has replaced and that are not
  disconnected) is a consumer with a passive stream for the vbucket, \<^verbatim>\<open>addPassiveStream\<close>
  returns \<open>ENGINE_KEY_EEXISTS\<close> and the state is the one it was called in, whatever
  \<open>addStream\<close> would do, so \<open>addStream\<close> is not called and the existing stream is
  untouched; if no connection of \<open>all\<close> is such a consumer, the result is that of
  \<open>conn.addStream\<close> on the same arguments.
\<close>

theorem addPassiveStream_unique:
  "((\<exists>it\<in>set (all s). \<exists>c. conns s it = Some c \<and> handler_class c = DcpConsumer
        \<and> streamPresent c vbucket)
      \<longrightarrow> addPassiveStream addStream conn opaque vbucket flags_arg s = (ENGINE_KEY_EEXISTS, s))
   \<and> (\<not> (\<exists>it\<in>set (all s). \<exists>c. conns s it = Some c \<and> handler_class c = DcpConsumer
        \<and> streamPresent c vbucket)
      \<longrightarrow> addPassiveStream addStream conn opaque vbucket flags_arg s
            = addStream conn opaque vbucket flags_arg s)"
  by (auto simp: addPassiveStream_def isPassiveStreamConnected_iff)

text \<open>
  A consumer is created and a passive stream for vbucket 7 is added twice, with an
  \<open>addStream\<close> that records the stream on the connection and succeeds: the first call
  is the call of \<open>addStream\<close>, the second returns \<open>ENGINE_KEY_EEXISTS\<close> and leaves the
  state of the first.
\<close>

theorem addPassiveStream_unique_witness:
  "let DcpConsumer_new = (\<lambda>ck nm. \<lparr>handler_class = DcpConsumer, handler_name = nm,
           handler_cookie = ck, disconnect = False, reserved = True, lastWalkTime = 0,
           notifiable = Some \<lparr>paused = False, notifySent = False\<rparr>,
           streamPresent = (\<lambda>vb. False), vbVector = []\<rparr>);
       addStream = (\<lambda>conn opaque vb fl s.
           (ENGINE_SUCCESS,
            s\<lparr>conns := (conns s)(conn :=
                 map_option (\<lambda>c. c\<lparr>streamPresent := (streamPresent c)(vb := True)\<rparr>)
                   (conns s conn))\<rparr>));
       s1 = snd (newConsumer DcpConsumer_new 11 ''replica'' (newDcpConnMap 0 0));
       first = addPassiveStream addStream 0 10 7 0 s1;
       second = addPassiveStream addStream 0 11 7 0 (snd first)
   in first = addStream 0 10 7 0 s1
      \<and> fst first = ENGINE_SUCCESS
      \<and> second = (ENGINE_KEY_EEXISTS, snd first)"
proof -
  let ?new = "\<lambda>ck nm. \<lparr>handler_class = DcpConsumer, handler_name = nm,
           handler_cookie = ck, disconnect = False, reserved = True, lastWalkTime = 0,
           notifiable = Some \<lparr>paused = False, notifySent = False\<rparr>,
           streamPresent = (\<lambda>vb. False), vbVector = []\<rparr>"
  let ?add = "\<lambda>conn (opaque :: u32) (vb :: u16) (fl :: u32) s.
           (ENGINE_SUCCESS,
            s\<lparr>conns := (conns s)(conn :=
                 map_option (\<lambda>c. c\<lparr>streamPresent := (streamPresent c)(vb := True)\<rparr>)
                   (conns s conn))\<rparr>)"
  let ?s1 = "snd (newConsumer ?new 11 ''replica'' (newDcpConnMap 0 0))"
  let ?first = "addPassiveStream ?add 0 10 7 0 ?s1"
  have s1: "all ?s1 = [0]" "conns ?s1 0 = Some (?new 11 ''eq_dcpq:replica'')"
    by (simp_all add: newConsumer_def newDcpConnMap_def updateMax_eq)
  have none: "\<not> (\<exists>it\<in>set (all ?s1). \<exists>c. conns ?s1 it = Some c \<and> handler_class c = DcpConsumer
        \<and> streamPresent c 7)"
    by (simp add: s1)
  from addPassiveStream_unique [of ?s1 7 ?add 0 10 0] none
  have first: "?first = ?add 0 10 7 0 ?s1" by blast
  have "\<exists>it\<in>set (all (snd ?first)). \<exists>c. conns (snd ?first) it = Some c
          \<and> handler_class c = DcpConsumer \<and> streamPresent c 7"
    by (simp add: first s1)
  with addPassiveStream_unique [of "snd ?first" 7 ?add 0 11 0]
  have second: "addPassiveStream ?add 0 11 7 0 (snd ?first) = (ENGINE_KEY_EEXISTS, snd ?first)"
    by blast
  from first second show ?thesis by (simp add: Let_def)
qed

subsection \<open>New connections\<close>

lemma disconnectNamed_None:
  "find (\<lambda>r. getName h r = Some n) xs = None \<Longrightarrow> disconnectNamed n xs h = (h, xs)"
  by (induction xs) (auto split: if_splits)

lemma disconnectNamed_Some:
  "find (\<lambda>r. getName h r = Some n) xs = Some r \<Longrightarrow>
     disconnectNamed n xs h = (h(r := map_option (setDisconnect True) (h r)), remove1 r xs)"
proof (induction xs)
  case Nil
  then show ?case by simp
next
  case (Cons x xs)
  show ?case
  proof (cases "getName h x = Some n")
    case True
    with Cons.prems have "x = r" by simp
    with True show ?thesis by (simp add: fun_upd_def)
  next
    case False
    with Cons.prems have f: "find (\<lambda>r. getName h r = Some n) xs = Some r" by simp
    then have "getName h r = Some n" by (auto simp: find_Some_iff)
    with False have "x \<noteq> r" by auto
    with False Cons.IH [OF f] show ?thesis by simp
  qed
qed

lemma map_of_map_assign: "map_of (map_assign k v m) k = Some v"
  by (induction m) auto

lemma newProducer_as_newConsumer:
  "newProducer DcpProducer_new cookie name notifyOnly s
     = newConsumer (\<lambda>ck nm. DcpProducer_new ck nm notifyOnly) cookie name s"
  by (simp add: newProducer_def newConsumer_def)

lemma newConsumer_unfold:
  "newConsumer DcpConsumer_new cookie name s =
     (case disconnectNamed (''eq_dcpq:'' @ name) (all s) (conns s) of
        (h, all') \<Rightarrow>
          (next_ref s,
           s\<lparr>conns := h(next_ref s \<mapsto> DcpConsumer_new cookie (''eq_dcpq:'' @ name)),
             next_ref := Suc (next_ref s),
             all := all' @ [next_ref s],
             cookie_map := map_assign cookie (next_ref s) (cookie_map s)\<rparr>))"
  by (simp add: newConsumer_def Let_def)

lemma newConsumer_registers:
  assumes "\<forall>r\<in>set (all s). r < next_ref s"
  shows "case newConsumer DcpConsumer_new cookie name s of
           (dcp, s') \<Rightarrow>
             conns s' dcp = Some (DcpConsumer_new cookie (''eq_dcpq:'' @ name))
             \<and> dcp \<in> set (all s')
             \<and> map_of (cookie_map s') cookie = Some dcp
             \<and> (\<forall>r. find (\<lambda>r. getName (conns s) r = Some (''eq_dcpq:'' @ name)) (all s) = Some r
                    \<longrightarrow> r \<noteq> dcp
                        \<and> conns s' r = map_option (setDisconnect True) (conns s r)
                        \<and> map_option disconnect (conns s' r) = Some True
                        \<and> all s' = remove1 r (all s) @ [dcp])
             \<and> (find (\<lambda>r. getName (conns s) r = Some (''eq_dcpq:'' @ name)) (all s) = None
                    \<longrightarrow> all s' = all s @ [dcp])"
proof -
  define n where "n = ''eq_dcpq:'' @ name"
  show ?thesis
    unfolding newConsumer_unfold n_def [symmetric]
  proof (cases "find (\<lambda>r. getName (conns s) r = Some n) (all s)")
    case None
    from disconnectNamed_None [OF None] show
      "case case disconnectNamed n (all s) (conns s) of
          (h, all') \<Rightarrow>
            (next_ref s,
             s\<lparr>conns := h(next_ref s \<mapsto> DcpConsumer_new cookie n),
               next_ref := Suc (next_ref s),
               all := all' @ [next_ref s],
               cookie_map := map_assign cookie (next_ref s) (cookie_map s)\<rparr>) of
         (dcp, s') \<Rightarrow>
             conns s' dcp = Some (DcpConsumer_new cookie n)
             \<and> dcp \<in> set (all s')
             \<and> map_of (cookie_map s') cookie = Some dcp
             \<and> (\<forall>r. find (\<lambda>r. getName (conns s) r = Some n) (all s) = Some r
                    \<longrightarrow> r \<noteq> dcp
                        \<and> conns s' r = map_option (setDisconnect True) (conns s r)
                        \<and> map_option disconnect (conns s' r) = Some True
                        \<and> all s' = remove1 r (all s) @ [dcp])
             \<and> (find (\<lambda>r. getName (conns s) r = Some n) (all s) = None
                    \<longrightarrow> all s' = all s @ [dcp])"
      by (simp add: None map_of_map_assign)
  next
    case (Some r)
    then have "r \<in> set (all s)" and nm: "getName (conns s) r = Some n"
      by (auto simp: find_Some_iff)
    with assms have ne: "r \<noteq> next_ref s" by auto
    from nm obtain c where c: "conns s r = Some c" by (auto simp: getName_def)
    from disconnectNamed_Some [OF Some] ne c show
      "case case disconnectNamed n (all s) (conns s) of
          (h, all') \<Rightarrow>
            (next_ref s,
             s\<lparr>conns := h(next_ref s \<mapsto> DcpConsumer_new cookie n),
               next_ref := Suc (next_ref s),
               all := all' @ [next_ref s],
               cookie_map := map_assign cookie (next_ref s) (cookie_map s)\<rparr>) of
         (dcp, s') \<Rightarrow>
             conns s' dcp = Some (DcpConsumer_new cookie n)
             \<and> dcp \<in> set (all s')
             \<and> map_of (cookie_map s') cookie = Some dcp
             \<and> (\<forall>r. find (\<lambda>r. getName (conns s) r = Some n) (all s) = Some r
                    \<longrightarrow> r \<noteq> dcp
                        \<and> conns s' r = map_option (setDisconnect True) (conns s r)
                        \<and> map_option disconnect (conns s' r) = Some True
                        \<and> all s' = remove1 r (all s) @ [dcp])
             \<and> (find (\<lambda>r. getName (conns s) r = Some n) (all s) = None
                    \<longrightarrow> all s' = all s @ [dcp])"
      by (simp add: Some map_of_map_assign setDisconnect_def)
  qed
qed

text \<open>
  Claim C5. In a state where every connection of \<open>all\<close> was allocated before
  (its address is below \<open>next_ref\<close>), \<^verbatim>\<open>newConsumer(cookie, name)\<close> and
  \<^verbatim>\<open>newProducer(cookie, name, notifyOnly)\<close> construct the connection with the logical name
  \<open>''eq_dcpq:'' @ name\<close>; afterwards the new connection is in \<open>all\<close> (at the back) and the
  cookie map sends the cookie to it; and if \<open>all\<close> held a connection with that logical
  name, the first such connection is marked for disconnect (and erased from \<open>all\<close>). It
  is another object than the new connection, so the mark is set on the old connection
  and the new one is inserted after it.
\<close>

theorem new_connection_registered:
  assumes "\<forall>r\<in>set (all s). r < next_ref s"
  shows "(case newConsumer DcpConsumer_new cookie name s of
           (dcp, s') \<Rightarrow>
             conns s' dcp = Some (DcpConsumer_new cookie (''eq_dcpq:'' @ name))
             \<and> dcp \<in> set (all s')
             \<and> map_of (cookie_map s') cookie = Some dcp
             \<and> (\<forall>r. find (\<lambda>r. getName (conns s) r = Some (''eq_dcpq:'' @ name)) (all s) = Some r
                    \<longrightarrow> r \<noteq> dcp
                        \<and> conns s' r = map_option (setDisconnect True) (conns s r)
                        \<and> map_option disconnect (conns s' r) = Some True
                        \<and> all s' = remove1 r (all s) @ [dcp])
             \<and> (find (\<lambda>r. getName (conns s) r = Some (''eq_dcpq:'' @ name)) (all s) = None
                    \<longrightarrow> all s' = all s @ [dcp]))
       \<and> (case newProducer DcpProducer_new cookie name notifyOnly s of
           (dcp, s') \<Rightarrow>
             conns s' dcp = Some (DcpProducer_new cookie (''eq_dcpq:'' @ name) notifyOnly)
             \<and> dcp \<in> set (all s')
             \<and> map_of (cookie_map s') cookie = Some dcp
             \<and> (\<forall>r. find (\<lambda>r. getName (conns s) r = Some (''eq_dcpq:'' @ name)) (all s) = Some r
                    \<longrightarrow> r \<noteq> dcp
                        \<and> conns s' r = map_option (setDisconnect True) (conns s r)
                        \<and> map_option disconnect (conns s' r) = Some True
                        \<and> all s' = remove1 r (all s) @ [dcp])
             \<and> (find (\<lambda>r. getName (conns s) r = Some (''eq_dcpq:'' @ name)) (all s) = None
                    \<longrightarrow> all s' = all s @ [dcp]))"
  using newConsumer_registers [OF assms, of DcpConsumer_new cookie name]
    newConsumer_registers [OF assms, of "\<lambda>ck nm. DcpProducer_new ck nm notifyOnly" cookie name]
  by (simp only: newProducer_as_newConsumer)

text \<open>
  A consumer named replica is created with cookie 11, then a producer named replica with
  cookie 12: the producer is the connection at address 1 with the logical name
  \<open>''eq_dcpq:replica''\<close>, it is the only connection of \<open>all\<close>, the cookie map holds both
  cookies, and the consumer, at address 0, is marked for disconnect.
\<close>

theorem new_connection_registered_witness:
  "let DcpConsumer_new = (\<lambda>ck nm. \<lparr>handler_class = DcpConsumer, handler_name = nm,
           handler_cookie = ck, disconnect = False, reserved = True, lastWalkTime = 0,
           notifiable = Some \<lparr>paused = False, notifySent = False\<rparr>,
           streamPresent = (\<lambda>vb. False), vbVector = []\<rparr>);
       DcpProducer_new = (\<lambda>ck nm notifyOnly. \<lparr>handler_class = DcpProducer, handler_name = nm,
           handler_cookie = ck, disconnect = False, reserved = True, lastWalkTime = 0,
           notifiable = Some \<lparr>paused = False, notifySent = False\<rparr>,
           streamPresent = (\<lambda>vb. False), vbVector = []\<rparr>);
       s1 = snd (newConsumer DcpConsumer_new 11 ''replica'' (newDcpConnMap 0 0));
       s2 = snd (newProducer DcpProducer_new 12 ''replica'' False s1)
   in all s1 = [0] \<and> next_ref s1 = 1
      \<and> fst (newProducer DcpProducer_new 12 ''replica'' False s1) = 1
      \<and> map_option handler_name (conns s2 1) = Some ''eq_dcpq:replica''
      \<and> all s2 = [1]
      \<and> cookie_map s2 = [(11, 0), (12, 1)]
      \<and> map_option disconnect (conns s1 0) = Some False
      \<and> map_option disconnect (conns s2 0) = Some True"
proof -
  let ?newC = "\<lambda>ck nm. \<lparr>handler_class = DcpConsumer, handler_name = nm,
           handler_cookie = ck, disconnect = False, reserved = True, lastWalkTime = 0,
           notifiable = Some \<lparr>paused = False, notifySent = False\<rparr>,
           streamPresent = (\<lambda>vb. False), vbVector = []\<rparr>"
  let ?newP = "\<lambda>ck nm (notifyOnly :: bool). \<lparr>handler_class = DcpProducer, handler_name = nm,
           handler_cookie = ck, disconnect = False, reserved = True, lastWalkTime = 0,
           notifiable = Some \<lparr>paused = False, notifySent = False\<rparr>,
           streamPresent = (\<lambda>vb. False), vbVector = []\<rparr>"
  let ?s1 = "snd (newConsumer ?newC 11 ''replica'' (newDcpConnMap 0 0))"
  have s1: "all ?s1 = [0]" "next_ref ?s1 = 1" "cookie_map ?s1 = [(11, 0)]"
    "conns ?s1 0 = Some (?newC 11 ''eq_dcpq:replica'')"
    by (simp_all add: newConsumer_def newDcpConnMap_def updateMax_eq)
  have hyp: "\<forall>r\<in>set (all ?s1). r < next_ref ?s1"
    by (simp add: s1)
  have found: "find (\<lambda>r. getName (conns ?s1) r = Some (''eq_dcpq:'' @ ''replica'')) (all ?s1) = Some 0"
    by (simp add: s1 getName_def)
  obtain dcp s2 where p: "newProducer ?newP 12 ''replica'' False ?s1 = (dcp, s2)"
    by (cases "newProducer ?newP 12 ''replica'' False ?s1")
  have dcp: "dcp = 1" and cm: "cookie_map s2 = [(11, 0), (12, 1)]"
    using p by (auto simp: newProducer_def Let_def s1 split: prod.splits)
  note T = new_connection_registered [OF hyp, of ?newC 12 "''replica''" ?newP False,
               THEN conjunct2, unfolded p prod.case]
  from T found
  have "conns s2 dcp = Some (?newP 12 (''eq_dcpq:'' @ ''replica'') False)
        \<and> map_option disconnect (conns s2 0) = Some True
        \<and> all s2 = remove1 0 (all ?s1) @ [dcp]"
    by blast
  with dcp cm s1 p show ?thesis by (simp add: Let_def)
qed

text \<open>
  The condition on the addresses holds for the connection map as constructed and is kept
  by both functions.
\<close>

lemma disconnectNamed_subset: "set (snd (disconnectNamed n xs h)) \<subseteq> set xs"
  by (induction xs) (auto simp: case_prod_beta)

lemma allocated_newDcpConnMap:
  "\<forall>r\<in>set (all (newDcpConnMap maxDataSize ratio)). r < next_ref (newDcpConnMap maxDataSize ratio)"
  by (simp add: newDcpConnMap_def updateMaxActiveSnoozingBackfills_def Let_def)

lemma allocated_newConsumer:
  assumes "\<forall>r\<in>set (all s). r < next_ref s"
  shows "\<forall>r\<in>set (all (snd (newConsumer DcpConsumer_new cookie name s))).
           r < next_ref (snd (newConsumer DcpConsumer_new cookie name s))"
proof -
  have "set (snd (disconnectNamed (''eq_dcpq:'' @ name) (all s) (conns s))) \<subseteq> set (all s)"
    by (rule disconnectNamed_subset)
  with assms show ?thesis
    by (auto simp: newConsumer_unfold case_prod_beta less_Suc_eq)
qed

lemma allocated_newProducer:
  assumes "\<forall>r\<in>set (all s). r < next_ref s"
  shows "\<forall>r\<in>set (all (snd (newProducer DcpProducer_new cookie name notifyOnly s))).
           r < next_ref (snd (newProducer DcpProducer_new cookie name notifyOnly s))"
  using allocated_newConsumer [OF assms] by (simp only: newProducer_as_newConsumer)

subsection \<open>Notifications of a pass\<close>

lemma collectToNotify_eq:
  "collectToNotify now h m toNotify
     = toNotify @ filter (\<lambda>conn. case h conn of None \<Rightarrow> False | Some c \<Rightarrow> due_for_notify now c)
                    (map snd m)"
proof (induction m arbitrary: toNotify)
  case Nil
  then show ?case by simp
next
  case (Cons e m)
  obtain k conn where e: "e = (k, conn)" by (cases e)
  show ?case
    unfolding e
    by (simp add: Cons.IH due_for_notify_def maxIdleTime_def split: option.splits)
qed

lemma notifyLoop_calls:
  assumes "\<forall>r. map_option (\<lambda>c. (reserved c, handler_cookie c)) (h r)
                = map_option (\<lambda>c. (reserved c, handler_cookie c)) (h0 r)"
  shows "fst (notifyLoop xs h calls)
           = calls @ map (\<lambda>r. (handler_cookie (the (h0 r)), ENGINE_SUCCESS))
                       (filter (\<lambda>r. case h0 r of None \<Rightarrow> False | Some c \<Rightarrow> reserved c) xs)"
  using assms
proof (induction xs arbitrary: h calls)
  case Nil
  then show ?case by simp
next
  case (Cons it rest)
  from Cons.prems have it: "map_option (\<lambda>c. (reserved c, handler_cookie c)) (h it)
                = map_option (\<lambda>c. (reserved c, handler_cookie c)) (h0 it)" by blast
  show ?case
  proof (cases "h it")
    case None
    with it have "h0 it = None" by simp
    with None Cons.IH [OF Cons.prems] show ?thesis by simp
  next
    case (Some c)
    with it obtain c0 where c0: "h0 it = Some c0" and r: "reserved c0 = reserved c"
      and k: "handler_cookie c0 = handler_cookie c" by (cases "h0 it") auto
    show ?thesis
    proof (cases "reserved c")
      case False
      with Some c0 r Cons.IH [OF Cons.prems] show ?thesis by simp
    next
      case True
      let ?h' = "h(it \<mapsto> setNotifySentAsProducer c)"
      have prem: "\<forall>r. map_option (\<lambda>c. (reserved c, handler_cookie c)) (?h' r)
                = map_option (\<lambda>c. (reserved c, handler_cookie c)) (h0 r)"
        using Cons.prems c0 r k by (simp add: setNotifySentAsProducer_def setNotifySent_def)
      have "fst (notifyLoop rest ?h' (calls @ [(handler_cookie c, ENGINE_SUCCESS)]))
              = (calls @ [(handler_cookie c, ENGINE_SUCCESS)])
                @ map (\<lambda>r. (handler_cookie (the (h0 r)), ENGINE_SUCCESS))
                    (filter (\<lambda>r. case h0 r of None \<Rightarrow> False | Some c \<Rightarrow> reserved c) rest)"
        by (rule Cons.IH [OF prem])
      with True Some c0 r k show ?thesis by simp
    qed
  qed
qed

lemma idle_deadline_unat:
  assumes "unat (t :: u32) + 5 < 2 ^ 32"
  shows "t + maxIdleTime < now \<longleftrightarrow> unat t + 5 < unat now"
proof -
  have "unat t + unat (5 :: u32) < 2 ^ LENGTH(32)" using assms by simp
  then have "unat (t + 5) = unat t + unat (5 :: u32)" by (simp only: unat_add_lem)
  then show ?thesis by (simp add: maxIdleTime_def word_less_nat_alt)
qed

text \<open>
  Claim C6. The \<^verbatim>\<open>notifyIOComplete\<close> calls of one \<^verbatim>\<open>manageConnections\<close> pass are, in the
  order of the cookie map, one call with the connection's cookie and \<open>ENGINE_SUCCESS\<close>
  for each entry whose connection is due (\<open>due_for_notify\<close>), and no other call. For a
  notifiable, reserved connection that is paused or marked for disconnect, being due
  means that it has not been sent a notify or that its last walk time plus
  \<open>maxIdleTime\<close> is earlier than \<open>now\<close>, with \<open>maxIdleTime = 5\<close>; the sum is taken in 32
  bits, as the code takes it, and is the sum of the two numbers whenever that is below
  \<open>2 ^ 32\<close>. A connection that is not notifiable or not reserved is never due.
\<close>

theorem manageConnections_notifies:
  "fst (manageConnections now releaseReference s)
     = map (\<lambda>conn. (handler_cookie (the (conns s conn)), ENGINE_SUCCESS))
         (filter (\<lambda>conn. case conns s conn of None \<Rightarrow> False | Some c \<Rightarrow> due_for_notify now c)
            (map snd (cookie_map s)))
   \<and> (\<forall>c tp. notifiable c = Some tp \<longrightarrow> reserved c \<longrightarrow> paused tp \<or> disconnect c \<longrightarrow>
         (due_for_notify now c \<longleftrightarrow> \<not> notifySent tp \<or> lastWalkTime c + maxIdleTime < now))
   \<and> (\<forall>c. notifiable c = None \<or> \<not> reserved c \<longrightarrow> \<not> due_for_notify now c)
   \<and> (\<forall>c. unat (lastWalkTime c) + 5 < 2 ^ 32 \<longrightarrow>
         (lastWalkTime c + maxIdleTime < now \<longleftrightarrow> unat (lastWalkTime c) + 5 < unat now))
   \<and> maxIdleTime = 5"
proof -
  let ?due = "\<lambda>conn. case conns s conn of None \<Rightarrow> False | Some c \<Rightarrow> due_for_notify now c"
  let ?toNotify = "filter ?due (map snd (cookie_map s))"
  have "filter (\<lambda>r. case conns s r of None \<Rightarrow> False | Some c \<Rightarrow> reserved c) ?toNotify = ?toNotify"
    by (rule filter_True) (auto simp: due_for_notify_def split: option.splits)
  with notifyLoop_calls [of "conns s" "conns s" ?toNotify "[]"]
  have "fst (notifyLoop ?toNotify (conns s) [])
          = map (\<lambda>conn. (handler_cookie (the (conns s conn)), ENGINE_SUCCESS)) ?toNotify"
    by simp
  then have A: "fst (manageConnections now releaseReference s)
     = map (\<lambda>conn. (handler_cookie (the (conns s conn)), ENGINE_SUCCESS)) ?toNotify"
    by (simp add: manageConnections_def collectToNotify_eq Let_def case_prod_beta)
  have B: "\<forall>c tp. notifiable c = Some tp \<longrightarrow> reserved c \<longrightarrow> paused tp \<or> disconnect c \<longrightarrow>
         (due_for_notify now c \<longleftrightarrow> \<not> notifySent tp \<or> lastWalkTime c + maxIdleTime < now)"
    by (simp add: due_for_notify_def maxIdleTime_def)
  have C: "\<forall>c. notifiable c = None \<or> \<not> reserved c \<longrightarrow> \<not> due_for_notify now c"
    by (auto simp: due_for_notify_def split: option.splits)
  have D: "maxIdleTime = 5" by (simp add: maxIdleTime_def)
  have E: "\<forall>c. unat (lastWalkTime c) + 5 < 2 ^ 32 \<longrightarrow>
         (lastWalkTime c + maxIdleTime < now \<longleftrightarrow> unat (lastWalkTime c) + 5 < unat now)"
    by (simp add: idle_deadline_unat)
  from A B C D E show ?thesis by blast
qed

text \<open>
  Four paused producers at time 100. The first was walked at time 10 and is notified; the
  second was walked at time 98 and has been sent a notify, so it is not notified; the
  third was walked at time 98 and has not been sent a notify, so it is notified; the
  fourth is like the first but not reserved, and is not notified.
\<close>

theorem manageConnections_notifies_witness:
  "let p = \<lparr>handler_class = DcpProducer, handler_name = ''eq_dcpq:a'', handler_cookie = 1,
             disconnect = False, reserved = True, lastWalkTime = 10,
             notifiable = Some \<lparr>paused = True, notifySent = True\<rparr>,
             streamPresent = (\<lambda>vb. False), vbVector = []\<rparr>;
       s = \<lparr>conns = [0 \<mapsto> p,
                      1 \<mapsto> p\<lparr>handler_cookie := 2, lastWalkTime := 98\<rparr>,
                      2 \<mapsto> p\<lparr>handler_cookie := 3, lastWalkTime := 98,
                             notifiable := Some \<lparr>paused = True, notifySent = False\<rparr>\<rparr>,
                      3 \<mapsto> p\<lparr>handler_cookie := 4, reserved := False\<rparr>],
            next_ref = 4, all = [0, 1, 2, 3],
            cookie_map = [(1, 0), (2, 1), (3, 2), (4, 3)],
            deadConnections = [], vbConns = (\<lambda>vb. []), aggrDcpConsumerBufferSize = 0,
            minCompressionRatioForProducer = 0,
            numActiveSnoozingBackfills = 0, maxActiveSnoozingBackfills = 1\<rparr>
   in fst (manageConnections 100 id s) = [(1, ENGINE_SUCCESS), (3, ENGINE_SUCCESS)]"
  unfolding Let_def
  by (rule trans [OF manageConnections_notifies [THEN conjunct1]])
     (simp add: due_for_notify_def word_less_nat_alt)

end
